theory Spec2Isabelle
  imports Main "HOL-Library.Sublist"
begin

section \<open>Go strings\<close>

text \<open>
  A Go string is a sequence of bytes, modelled as \<^typ>\<open>string\<close> (one \<^typ>\<open>char\<close> per
  byte). A rune is a Unicode code point, modelled as a natural number. The functions of
  the packages \<^verbatim>\<open>unicode/utf8\<close> and \<^verbatim>\<open>strings\<close> that the query builder calls are
  written out here after their documented behaviour.
\<close>

type_synonym rune = nat

definition byte :: "char \<Rightarrow> nat" where
  "byte c = of_char c"

definition RuneError :: rune where
  "RuneError = 0xFFFD"

text \<open>
  \<^verbatim>\<open>utf8.DecodeRuneInString\<close>: the first rune of the string and its width in bytes.
  An empty string gives \<open>(RuneError, 0)\<close>, an ill-formed sequence \<open>(RuneError, 1)\<close>.
  The second byte of a sequence is checked against the range that the first byte
  accepts, which excludes overlong forms, surrogates and values above U+10FFFF.
  Bytes are read as numbers: \<open>s0 mod 32\<close> is the mask \<^verbatim>\<open>s0 & 0x1F\<close>, a product with
  a power of two the shift, and the sum of the parts their bitwise or, since the parts
  do not overlap.
\<close>

definition seqLen :: "nat \<Rightarrow> nat" where
  "seqLen s0 =
     (if s0 < 0x80 then 1
      else if s0 < 0xC2 then 0
      else if s0 < 0xE0 then 2
      else if s0 < 0xF0 then 3
      else if s0 < 0xF5 then 4
      else 0)"

definition acceptLo :: "nat \<Rightarrow> nat" where
  "acceptLo s0 = (if s0 = 0xE0 then 0xA0 else if s0 = 0xF0 then 0x90 else 0x80)"

definition acceptHi :: "nat \<Rightarrow> nat" where
  "acceptHi s0 = (if s0 = 0xED then 0x9F else if s0 = 0xF4 then 0x8F else 0xBF)"

definition DecodeRuneInString :: "string \<Rightarrow> rune \<times> nat" where
  "DecodeRuneInString s =
     (case s of
        [] \<Rightarrow> (RuneError, 0)
      | c0 # _ \<Rightarrow>
          (let s0 = byte c0; sz = seqLen s0 in
           if sz = 1 then (s0, 1)
           else if sz = 0 then (RuneError, 1)
           else if length s < sz then (RuneError, 1)
           else
             (let s1 = byte (s ! 1) in
              if s1 < acceptLo s0 \<or> acceptHi s0 < s1 then (RuneError, 1)
              else if sz \<le> 2 then ((s0 mod 32) * 64 + s1 mod 64, 2)
              else
                (let s2 = byte (s ! 2) in
                 if s2 < 0x80 \<or> 0xBF < s2 then (RuneError, 1)
                 else if sz \<le> 3 then
                   ((s0 mod 16) * 4096 + (s1 mod 64) * 64 + s2 mod 64, 3)
                 else
                   (let s3 = byte (s ! 3) in
                    if s3 < 0x80 \<or> 0xBF < s3 then (RuneError, 1)
                    else ((s0 mod 8) * 262144 + (s1 mod 64) * 4096
                            + (s2 mod 64) * 64 + s3 mod 64, 4))))))"

text \<open>
  \<^verbatim>\<open>utf8.AppendRune\<close>, which \<^verbatim>\<open>strings.Builder.WriteRune\<close> calls: the UTF-8 encoding
  of a rune; a surrogate or a value above U+10FFFF is written as U+FFFD. (A rune of Go
  is a signed number of 32 bits; the runes of a \<^verbatim>\<open>range\<close> loop are never negative.)
\<close>

definition encode3 :: "rune \<Rightarrow> string" where
  "encode3 r = [char_of (0xE0 + r div 4096), char_of (0x80 + (r div 64) mod 64),
                char_of (0x80 + r mod 64)]"

definition AppendRune :: "rune \<Rightarrow> string" where
  "AppendRune r =
     (if r \<le> 0x7F then [char_of r]
      else if r \<le> 0x7FF then [char_of (0xC0 + r div 64), char_of (0x80 + r mod 64)]
      else if r > 0x10FFFF \<or> (0xD800 \<le> r \<and> r \<le> 0xDFFF) then encode3 RuneError
      else if r \<le> 0xFFFF then encode3 r
      else [char_of (0xF0 + r div 262144), char_of (0x80 + (r div 4096) mod 64),
            char_of (0x80 + (r div 64) mod 64), char_of (0x80 + r mod 64)])"

text \<open>
  The runes that \<^verbatim>\<open>for _, r := range s\<close> yields: each step decodes one rune and
  advances by its width, so an ill-formed byte yields U+FFFD and advances by one byte.
\<close>

function runes :: "string \<Rightarrow> rune list" where
  "runes s =
     (if s = [] then []
      else fst (DecodeRuneInString s) # runes (drop (snd (DecodeRuneInString s)) s))"
  by pat_completeness auto
termination
proof (relation "measure length")
  show "wf (measure length)" by simp
next
  fix s :: string
  assume "s \<noteq> []"
  then have "0 < snd (DecodeRuneInString s)"
    by (cases s) (simp_all add: DecodeRuneInString_def Let_def)
  with \<open>s \<noteq> []\<close> show "(drop (snd (DecodeRuneInString s)) s, s) \<in> measure length"
    by simp
qed

declare runes.simps [simp del]

text \<open>\<^verbatim>\<open>utf8.ValidString\<close>: no step of the decoder meets an ill-formed sequence.\<close>

function ValidString :: "string \<Rightarrow> bool" where
  "ValidString s =
     (if s = [] then True
      else (byte (hd s) < 0x80 \<or> 1 < snd (DecodeRuneInString s))
           \<and> ValidString (drop (snd (DecodeRuneInString s)) s))"
  by pat_completeness auto
termination
proof (relation "measure length")
  show "wf (measure length)" by simp
next
  fix s :: string
  assume "s \<noteq> []"
  then have "0 < snd (DecodeRuneInString s)"
    by (cases s) (simp_all add: DecodeRuneInString_def Let_def)
  with \<open>s \<noteq> []\<close> show "(drop (snd (DecodeRuneInString s)) s, s) \<in> measure length"
    by simp
qed

declare ValidString.simps [simp del]

subsection \<open>Package strings\<close>

text \<open>\<^verbatim>\<open>strings.Join(elems, sep)\<close>.\<close>

fun Join :: "string list \<Rightarrow> string \<Rightarrow> string" where
  "Join [] sep = []"
| "Join [x] sep = x"
| "Join (x # y # ys) sep = x @ sep @ Join (y # ys) sep"

text \<open>
  \<^verbatim>\<open>strings.Split(s, sep)\<close> for a separator of one byte: the pieces between the
  separators, so a string without separator (the empty one too) gives one piece.
\<close>

fun SplitFrom :: "string \<Rightarrow> char \<Rightarrow> string \<Rightarrow> string list" where
  "SplitFrom cur sep [] = [cur]"
| "SplitFrom cur sep (c # cs) =
     (if c = sep then cur # SplitFrom [] sep cs else SplitFrom (cur @ [c]) sep cs)"

definition Split :: "string \<Rightarrow> char \<Rightarrow> string list" where
  "Split s sep = SplitFrom [] sep s"

text \<open>\<^verbatim>\<open>strings.SplitN(s, sep, 2)\<close> for a separator of one byte: cut at the first one.\<close>

definition SplitN2 :: "string \<Rightarrow> char \<Rightarrow> string list" where
  "SplitN2 s sep =
     (if sep \<in> set s then [takeWhile (\<lambda>c. c \<noteq> sep) s, tl (dropWhile (\<lambda>c. c \<noteq> sep) s)]
      else [s])"

text \<open>\<^verbatim>\<open>strings.Contains(s, substr)\<close> for a substring of one byte.\<close>

definition Contains :: "string \<Rightarrow> char \<Rightarrow> bool" where
  "Contains s c = (c \<in> set s)"

definition HasPrefix :: "string \<Rightarrow> string \<Rightarrow> bool" where
  "HasPrefix s p = prefix p s"

definition HasSuffix :: "string \<Rightarrow> string \<Rightarrow> bool" where
  "HasSuffix s x = suffix x s"

definition TrimSuffix :: "string \<Rightarrow> string \<Rightarrow> string" where
  "TrimSuffix s x = (if HasSuffix s x then take (length s - length x) s else s)"

text \<open>
  \<^verbatim>\<open>utf8.DecodeLastRuneInString\<close>: the last rune of the string and its width. It looks
  back over at most four bytes for the start of a sequence and decodes from there; the
  last byte alone is ill-formed unless that sequence ends exactly at the end.
\<close>

definition RuneStart :: "nat \<Rightarrow> bool" where
  "RuneStart b = (b < 0x80 \<or> 0xC0 \<le> b)"

definition lastStart :: "string \<Rightarrow> nat" where
  "lastStart s =
     (let e = length s in
      if 2 \<le> e \<and> RuneStart (byte (s ! (e - 2))) then e - 2
      else if 3 \<le> e \<and> RuneStart (byte (s ! (e - 3))) then e - 3
      else if 4 \<le> e \<and> RuneStart (byte (s ! (e - 4))) then e - 4
      else if 5 \<le> e then e - 5
      else 0)"

definition DecodeLastRuneInString :: "string \<Rightarrow> rune \<times> nat" where
  "DecodeLastRuneInString s =
     (if s = [] then (RuneError, 0)
      else if byte (last s) < 0x80 then (byte (last s), 1)
      else
        (let start = lastStart s; d = DecodeRuneInString (drop start s) in
         if start + snd d \<noteq> length s then (RuneError, 1) else d))"

text \<open>\<^verbatim>\<open>unicode.IsSpace\<close>: the code points with the Unicode property White_Space.\<close>

definition IsSpace :: "rune \<Rightarrow> bool" where
  "IsSpace r =
     ((0x09 \<le> r \<and> r \<le> 0x0D) \<or> r = 0x20 \<or> r = 0x85 \<or> r = 0xA0 \<or> r = 0x1680
      \<or> (0x2000 \<le> r \<and> r \<le> 0x200A) \<or> r = 0x2028 \<or> r = 0x2029 \<or> r = 0x202F
      \<or> r = 0x205F \<or> r = 0x3000)"

definition asciiSpace :: "nat \<Rightarrow> bool" where
  "asciiSpace b = ((0x09 \<le> b \<and> b \<le> 0x0D) \<or> b = 0x20)"

text \<open>
  \<^verbatim>\<open>strings.TrimLeftFunc(s, unicode.IsSpace)\<close>: drop runes from the left while they
  are white space.
\<close>

function TrimLeftFunc :: "string \<Rightarrow> string" where
  "TrimLeftFunc s =
     (if s = [] then []
      else if IsSpace (fst (DecodeRuneInString s))
        then TrimLeftFunc (drop (snd (DecodeRuneInString s)) s)
      else s)"
  by pat_completeness auto
termination
proof (relation "measure length")
  show "wf (measure length)" by simp
next
  fix s :: string
  assume "s \<noteq> []"
  then have "0 < snd (DecodeRuneInString s)"
    by (cases s) (simp_all add: DecodeRuneInString_def Let_def)
  with \<open>s \<noteq> []\<close> show "(drop (snd (DecodeRuneInString s)) s, s) \<in> measure length"
    by simp
qed

declare TrimLeftFunc.simps [simp del]

text \<open>
  \<^verbatim>\<open>lastIndexFunc(s, unicode.IsSpace, false)\<close> on \<open>s[0:i]\<close>: the index of the last
  rune that is not white space, \<open>None\<close> for Go's \<open>-1\<close>.
\<close>

function lastIndexFunc :: "string \<Rightarrow> nat \<Rightarrow> nat option" where
  "lastIndexFunc s i =
     (if i = 0 \<or> length s < i then None
      else if IsSpace (fst (DecodeLastRuneInString (take i s)))
        then lastIndexFunc s (i - snd (DecodeLastRuneInString (take i s)))
      else Some (i - snd (DecodeLastRuneInString (take i s))))"
  by pat_completeness auto
termination
proof (relation "measure snd")
  show "wf (measure snd)" by simp
next
  fix s :: string and i :: nat
  assume a: "\<not> (i = 0 \<or> length s < i)"
  define t where "t = take i s"
  with a have ne: "t \<noteq> []" by auto
  have "0 < snd (DecodeLastRuneInString t)"
  proof (cases "byte (last t) < 0x80")
    case True
    with ne show ?thesis by (simp add: DecodeLastRuneInString_def)
  next
    case False
    show ?thesis
    proof (cases "lastStart t + snd (DecodeRuneInString (drop (lastStart t) t)) = length t")
      case True
      have "lastStart t < length t"
        using ne by (auto simp add: lastStart_def Let_def)
      then have "drop (lastStart t) t \<noteq> []" by simp
      then have "0 < snd (DecodeRuneInString (drop (lastStart t) t))"
        by (cases "drop (lastStart t) t") (simp_all add: DecodeRuneInString_def Let_def)
      with ne False True show ?thesis by (simp add: DecodeLastRuneInString_def Let_def)
    next
      case neq: False
      with ne False show ?thesis by (simp add: DecodeLastRuneInString_def Let_def)
    qed
  qed
  then have "0 < snd (DecodeLastRuneInString (take i s))" by (simp add: t_def)
  with a
  show "((s, i - snd (DecodeLastRuneInString (take i s))), (s, i)) \<in> measure snd"
    by simp
qed

declare lastIndexFunc.simps [simp del]

text \<open>\<^verbatim>\<open>strings.TrimRightFunc(s, unicode.IsSpace)\<close>.\<close>

definition TrimRightFunc :: "string \<Rightarrow> string" where
  "TrimRightFunc s =
     (case lastIndexFunc s (length s) of
        None \<Rightarrow> []
      | Some i \<Rightarrow>
          if 0x80 \<le> byte (s ! i) then take (i + snd (DecodeRuneInString (drop i s))) s
          else take (i + 1) s)"

text \<open>
  \<^verbatim>\<open>strings.TrimSpace\<close>. The scan from the right of the fast path: ASCII white space
  is cut, a byte that is not ASCII hands over to \<^const>\<open>TrimRightFunc\<close>.
\<close>

function trimRightASCII :: "string \<Rightarrow> string" where
  "trimRightASCII s =
     (if s = [] then []
      else if 0x80 \<le> byte (last s) then TrimRightFunc s
      else if asciiSpace (byte (last s)) then trimRightASCII (butlast s)
      else s)"
  by pat_completeness auto
termination
  by (relation "measure length") auto

declare trimRightASCII.simps [simp del]

text \<open>
  The scan from the left: ASCII white space is skipped, a byte that is not ASCII hands
  the rest over to \<^verbatim>\<open>TrimFunc\<close>, which trims the left and then the right.
\<close>

fun TrimSpace :: "string \<Rightarrow> string" where
  "TrimSpace [] = []"
| "TrimSpace (c # cs) =
     (if 0x80 \<le> byte c then TrimRightFunc (TrimLeftFunc (c # cs))
      else if asciiSpace (byte c) then TrimSpace cs
      else trimRightASCII (c # cs))"

section \<open>splitSelectFields\<close>

text \<open>
  One iteration of the loop of \<^verbatim>\<open>splitSelectFields\<close> on the state
  \<open>(fields, cur, depth)\<close>: a comma at depth zero closes the current field, every other
  rune is written to \<open>cur\<close>; \<open>(\<close> raises the depth and \<open>)\<close> lowers it when positive.
  The depth is an \<^verbatim>\<open>int\<close> of Go, which a string that fits in memory cannot overflow; it
  is a natural number here.
\<close>

fun splitStep :: "string list \<times> string \<times> nat \<Rightarrow> rune \<Rightarrow> string list \<times> string \<times> nat" where
  "splitStep (fields, cur, depth) r =
     (if r = 0x2C \<and> depth = 0 then (fields @ [cur], [], depth)
      else
        (fields, cur @ AppendRune r,
         if r = 0x28 then depth + 1
         else if r = 0x29 \<and> depth > 0 then depth - 1
         else depth))"

definition splitSelectFields :: "string \<Rightarrow> string list" where
  "splitSelectFields s =
     (case foldl splitStep ([], [], 0) (runes s) of
        (fields, cur, depth) \<Rightarrow> if length cur > 0 then fields @ [cur] else fields)"

text \<open>
  The depth counter of that loop alone, and the inputs whose last rune is a comma that
  the loop meets at depth zero: the comma closes a field and leaves nothing after it.
\<close>

definition depthStep :: "nat \<Rightarrow> rune \<Rightarrow> nat" where
  "depthStep depth r =
     (if r = 0x28 then depth + 1
      else if r = 0x29 \<and> depth > 0 then depth - 1
      else depth)"

definition endsWithTopLevelComma :: "string \<Rightarrow> bool" where
  "endsWithTopLevelComma s =
     (let rs = runes s in
      rs \<noteq> [] \<and> last rs = 0x2C \<and> foldl depthStep 0 (butlast rs) = 0)"

section \<open>Regular expressions of the query builder\<close>

text \<open>The class \<^verbatim>\<open>\w\<close> of Go's \<^verbatim>\<open>regexp\<close>: the ASCII letters, the digits and \<open>_\<close>.\<close>

definition isWord :: "char \<Rightarrow> bool" where
  "isWord c =
     (let b = byte c in
      (0x30 \<le> b \<and> b \<le> 0x39) \<or> (0x41 \<le> b \<and> b \<le> 0x5A) \<or> b = 0x5F
      \<or> (0x61 \<le> b \<and> b \<le> 0x7A))"

text \<open>
  \<^verbatim>\<open>regexp.MustCompile(`^(\w+)\((.*)\)$`).FindStringSubmatch(f)\<close>: the list of the
  whole match and the two groups, or the empty list. The first group is the longest
  prefix of word characters, which \<open>(\<close> must follow; the string must end in \<open>)\<close>; the
  second group is what lies between, and \<^verbatim>\<open>.\<close> does not match a line feed.
\<close>

definition matchEmbed :: "string \<Rightarrow> string list" where
  "matchEmbed f =
     (let w = takeWhile isWord f; rest = dropWhile isWord f in
      if w \<noteq> [] \<and> 2 \<le> length rest \<and> hd rest = CHR ''('' \<and> last rest = CHR '')''
         \<and> CHR 0x0A \<notin> set (butlast (tl rest))
      then [f, w, butlast (tl rest)]
      else [])"

text \<open>
  \<^verbatim>\<open>regexp.MustCompile(`^(\w+)\(`).FindStringSubmatch(f)\<close>: the match and the group,
  or the empty list.
\<close>

definition matchEmbedPrefix :: "string \<Rightarrow> string list" where
  "matchEmbedPrefix f =
     (let w = takeWhile isWord f; rest = dropWhile isWord f in
      if w \<noteq> [] \<and> rest \<noteq> [] \<and> hd rest = CHR ''('' then [w @ ''('', w] else [])"

section \<open>Relationship resolution\<close>

definition singularize :: "string \<Rightarrow> string" where
  "singularize name =
     (if HasSuffix name ''ies'' then TrimSuffix name ''ies'' @ ''y''
      else if HasSuffix name ''s'' then TrimSuffix name ''s''
      else name)"

text \<open>
  The \<^verbatim>\<open>Querier\<close> runs the catalog query of \<^verbatim>\<open>columnExists\<close> for a table and a
  column: \<open>Some b\<close> when \<^verbatim>\<open>Scan\<close> stores \<open>b\<close>, \<open>None\<close> when it returns an error.
\<close>

type_synonym Querier = "string \<Rightarrow> string \<Rightarrow> bool option"

definition columnExists :: "Querier \<Rightarrow> string \<Rightarrow> string \<Rightarrow> bool" where
  "columnExists db table column =
     (case db table column of
        None \<Rightarrow> False
      | Some exists \<Rightarrow> exists)"

section \<open>The query under construction\<close>

text \<open>
  The query is built with the library goqu, which is not part of the repository. The
  model records the arguments of the builder calls: \<^verbatim>\<open>goqu.L\<close> (literal SQL text,
  written into the statement as it is), \<^verbatim>\<open>goqu.C\<close> (a column identifier, which goqu
  quotes), \<^verbatim>\<open>goqu.T(t).Col(c)\<close>, \<^verbatim>\<open>goqu.T(t).All()\<close> and the plain string given to
  \<^verbatim>\<open>Select("*")\<close>. \<^verbatim>\<open>BuildQuery\<close> returns what \<^verbatim>\<open>ToSQL\<close> renders from this record;
  the rendering itself, and the error of \<^verbatim>\<open>ToSQL\<close> that \<^verbatim>\<open>BuildQuery\<close> discards, belong
  to the library.
\<close>

datatype expression =
    L string
  | C string
  | Col string string
  | All string
  | S string

datatype operand = Str string | Strs "string list" | Ex expression

datatype condition =
    Eq expression operand
  | Gt expression operand
  | Lt expression operand
  | Gte expression operand
  | Lte expression operand
  | Like expression operand
  | In expression operand

datatype joinClause = LeftJoin string condition

datatype orderedExpression = Asc expression | Desc expression

record SelectDataset =
  dsFrom :: string
  dsSelect :: "expression list"
  dsWhere :: "condition list"
  dsJoins :: "joinClause list"
  dsOrder :: "orderedExpression list"
  dsLimit :: "nat option"
  dsOffset :: "nat option"

definition From :: "string \<Rightarrow> SelectDataset" where
  "From table =
     \<lparr>dsFrom = table, dsSelect = [], dsWhere = [], dsJoins = [], dsOrder = [],
      dsLimit = None, dsOffset = None\<rparr>"

definition Select :: "expression list \<Rightarrow> SelectDataset \<Rightarrow> SelectDataset" where
  "Select cols query = query\<lparr>dsSelect := cols\<rparr>"

definition SelectAppend :: "expression \<Rightarrow> SelectDataset \<Rightarrow> SelectDataset" where
  "SelectAppend col query = query\<lparr>dsSelect := dsSelect query @ [col]\<rparr>"

definition Where :: "condition \<Rightarrow> SelectDataset \<Rightarrow> SelectDataset" where
  "Where c query = query\<lparr>dsWhere := dsWhere query @ [c]\<rparr>"

text \<open>The fields of \<^verbatim>\<open>JoinConfig\<close> that the code writes or reads.\<close>

record JoinConfig =
  Table :: string
  OnLeft :: string
  OnRight :: string
  Columns :: "string list"

text \<open>
  \<^verbatim>\<open>url.Values\<close> is a map from names to lists of values. It is modelled as an
  association list; the loops over the map visit the entries in the order of the list
  (Go leaves the order open).
\<close>

type_synonym Values = "(string \<times> string list) list"

definition Get :: "Values \<Rightarrow> string \<Rightarrow> string" where
  "Get params key =
     (case map_of params key of
        None \<Rightarrow> []
      | Some vs \<Rightarrow> (case vs of [] \<Rightarrow> [] | v # _ \<Rightarrow> v))"

section \<open>Select fields\<close>

text \<open>
  The two \<^verbatim>\<open>fmt.Sprintf\<close> formats of lines 87 to 97; every \<^verbatim>\<open>%s\<close> is replaced by
  the text of its argument as it is.
\<close>

definition manyToOneSQL :: "string \<Rightarrow> string \<Rightarrow> string \<Rightarrow> string" where
  "manyToOneSQL relTable table manyToOneFK =
     ''(SELECT row_to_json('' @ relTable @ ''.*) FROM '' @ relTable @ '' WHERE ''
       @ relTable @ ''.id = '' @ table @ ''.'' @ manyToOneFK @ '' LIMIT 1) AS '' @ relTable"

definition oneToManySQL :: "string \<Rightarrow> string \<Rightarrow> string \<Rightarrow> string \<Rightarrow> string" where
  "oneToManySQL colList relTable oneToManyFK table =
     ''(SELECT COALESCE(json_agg(row_to_json(arr)), ''
       @ [CHR 0x27, CHR ''['', CHR '']'', CHR 0x27]
       @ ''::json) FROM (SELECT '' @ colList @ '' FROM '' @ relTable @ '' WHERE ''
       @ relTable @ ''.'' @ oneToManyFK @ '' = '' @ table @ ''.id) arr) AS '' @ relTable"

text \<open>
  The subquery of an embed, lines 63 to 98 of \<^verbatim>\<open>BuildQuery\<close>: \<open>table\<close> is the root
  table, \<open>relTable\<close> and \<open>cols\<close> come from the select field.
\<close>

definition embedSubquery :: "Querier \<Rightarrow> string \<Rightarrow> string \<Rightarrow> string list \<Rightarrow> string" where
  "embedSubquery db table relTable cols =
     (let mainSingular = singularize table;
          relSingular = singularize relTable;
          manyToOneFK = relSingular @ ''_'' @ ''id'';
          oneToManyFK = mainSingular @ ''_'' @ ''id'';
          colList = (if length cols = 0 then ''*'' else Join cols '','');
          isManyToOne = columnExists db table manyToOneFK
      in
        if isManyToOne then manyToOneSQL relTable table manyToOneFK
        else oneToManySQL colList relTable oneToManyFK table)"

text \<open>The child columns of an embed, lines 56 to 61.\<close>

definition embedCols :: "string \<Rightarrow> string list" where
  "embedCols colsStr = (if colsStr \<noteq> [] then map TrimSpace (Split colsStr CHR '','') else [])"

text \<open>One iteration of the loop over the select fields, lines 46 to 107.\<close>

definition selectField :: "Querier \<Rightarrow> string \<Rightarrow> string \<Rightarrow> expression" where
  "selectField db table f0 =
     (let f = TrimSpace f0 in
      if Contains f CHR ''('' \<and> Contains f CHR '')'' then
        (case matchEmbed f of
           [m0, relTable, colsStr] \<Rightarrow> L (embedSubquery db table relTable (embedCols colsStr))
         | _ \<Rightarrow> C f)
      else C f)"

definition selectColumns :: "Querier \<Rightarrow> string \<Rightarrow> Values \<Rightarrow> SelectDataset \<Rightarrow> SelectDataset" where
  "selectColumns db table params query =
     (let s = Get params ''select'' in
      if s \<noteq> [] then
        (let selectCols = map (selectField db table) (splitSelectFields s) in
         if length selectCols > 0 then Select selectCols query else Select [S ''*''] query)
      else Select [S ''*''] query)"

section \<open>Filters on the root table\<close>

text \<open>The only abnormal end of \<^verbatim>\<open>BuildQuery\<close>: the run-time panic of \<^verbatim>\<open>val[0]\<close>.\<close>

datatype error = IndexOutOfRange

definition isRelatedResource :: "string \<Rightarrow> Values \<Rightarrow> bool" where
  "isRelatedResource key params = list_ex (\<lambda>(paramKey, _). HasPrefix paramKey (key @ ''.'')) params"

definition reserved :: "string \<Rightarrow> bool" where
  "reserved key = (key = ''select'' \<or> key = ''order'' \<or> key = ''limit'' \<or> key = ''offset'')"

text \<open>
  The \<^verbatim>\<open>switch op\<close> of lines 136 to 153. It has no default case: any other
  operator leaves the query as it is.
\<close>

definition applyOperator :: "string \<Rightarrow> string \<Rightarrow> string \<Rightarrow> SelectDataset \<Rightarrow> SelectDataset" where
  "applyOperator key op v query =
     (if op = ''eq'' then Where (Eq (C key) (Str v)) query
      else if op = ''gt'' then Where (Gt (C key) (Str v)) query
      else if op = ''lt'' then Where (Lt (C key) (Str v)) query
      else if op = ''gte'' then Where (Gte (C key) (Str v)) query
      else if op = ''lte'' then Where (Lte (C key) (Str v)) query
      else if op = ''like'' then Where (Like (C key) (Str v)) query
      else if op = ''in'' then Where (In (C key) (Strs (Split v CHR '',''))) query
      else query)"

text \<open>One iteration of the loop over the parameters, lines 119 to 154.\<close>

definition whereStep :: "Values \<Rightarrow> string \<times> string list \<Rightarrow> SelectDataset \<Rightarrow> error + SelectDataset" where
  "whereStep params kv query =
     (case kv of (key, val) \<Rightarrow>
        if reserved key \<or> Contains key CHR ''.'' then Inr query
        else if Contains key CHR ''('' \<or> isRelatedResource key params then Inr query
        else
          (case val of
             [] \<Rightarrow> Inl IndexOutOfRange
           | v0 # _ \<Rightarrow>
               (case SplitN2 v0 CHR ''.'' of
                  [op, v] \<Rightarrow> Inr (applyOperator key op v query)
                | _ \<Rightarrow> Inr query)))"

fun whereLoop :: "Values \<Rightarrow> Values \<Rightarrow> SelectDataset \<Rightarrow> error + SelectDataset" where
  "whereLoop params [] query = Inr query"
| "whereLoop params (kv # rest) query =
     (case whereStep params kv query of
        Inl e \<Rightarrow> Inl e
      | Inr query' \<Rightarrow> whereLoop params rest query')"

section \<open>Joins given as parameters\<close>

definition extractEmbeddedRelations :: "string \<Rightarrow> string list" where
  "extractEmbeddedRelations selectStr =
     (if selectStr = [] then []
      else
        concat (map (\<lambda>f0.
          let f = TrimSpace f0 in
          if Contains f CHR ''('' \<and> Contains f CHR '')'' then
            (case matchEmbedPrefix f of m0 # m1 # _ \<Rightarrow> [m1] | _ \<Rightarrow> [])
          else []) (splitSelectFields selectStr)))"

definition parseParenthesesJoin :: "string \<Rightarrow> JoinConfig option" where
  "parseParenthesesJoin param =
     (case matchEmbed param of
        [m0, tableName, columnStr] \<Rightarrow>
          Some \<lparr>Table = tableName, OnLeft = tableName @ ''_id'', OnRight = ''id'',
                Columns = (if columnStr \<noteq> [] then map TrimSpace (Split columnStr CHR '','') else [])\<rparr>
      | _ \<Rightarrow> None)"

definition filterOperators :: "string \<Rightarrow> bool" where
  "filterOperators op = (op \<in> set [''eq'', ''gt'', ''lt'', ''gte'', ''lte'', ''like'', ''in''])"

text \<open>
  The joins that a parameter gives by its parentheses, lines 253 to 261.
\<close>

definition parenthesesJoins :: "string list \<Rightarrow> string \<Rightarrow> JoinConfig list" where
  "parenthesesJoins embeddedRelations key =
     (if Contains key CHR ''('' \<and> Contains key CHR '')'' then
        (if takeWhile (\<lambda>c. c \<noteq> CHR ''('') key \<notin> set embeddedRelations then
           (case parseParenthesesJoin key of None \<Rightarrow> [] | Some join \<Rightarrow> [join])
         else [])
      else [])"

text \<open>
  One iteration of the loop of \<^verbatim>\<open>parseJoins\<close>, lines 221 to 262: the joins it
  appends. The \<^verbatim>\<open>continue\<close> for a filter operator skips the rest of the iteration.
\<close>

definition parseJoinsStep :: "Values \<Rightarrow> string list \<Rightarrow> string \<times> string list \<Rightarrow> JoinConfig list" where
  "parseJoinsStep params embeddedRelations kv =
     (case kv of (key, val) \<Rightarrow>
        if Contains key CHR ''.'' \<or> reserved key then []
        else
          (case val of
             v0 # _ \<Rightarrow>
               if Contains v0 CHR ''.'' \<and> \<not> Contains v0 CHR ''='' then
                 (case SplitN2 v0 CHR ''.'' of
                    [p0, p1] \<Rightarrow>
                      if filterOperators p0 then []
                      else
                        \<lparr>Table = key, OnLeft = p0, OnRight = p1,
                          Columns =
                            (case map_of params (key @ ''.select'') of
                               Some (selectVal # _) \<Rightarrow> Split selectVal CHR '',''
                             | _ \<Rightarrow> [])\<rparr>
                        # parenthesesJoins embeddedRelations key
                  | _ \<Rightarrow> parenthesesJoins embeddedRelations key)
               else parenthesesJoins embeddedRelations key
           | [] \<Rightarrow> parenthesesJoins embeddedRelations key))"

definition parseJoins :: "Values \<Rightarrow> string \<Rightarrow> JoinConfig list" where
  "parseJoins params mainTable =
     concat (map (parseJoinsStep params (extractEmbeddedRelations (Get params ''select''))) params)"

definition applyJoin :: "SelectDataset \<Rightarrow> JoinConfig \<Rightarrow> string \<Rightarrow> SelectDataset" where
  "applyJoin query join mainTable =
     (let leftCol = Col mainTable (OnLeft join);
          rightCol = Col (Table join) (OnRight join);
          query1 = query\<lparr>dsJoins := dsJoins query @ [LeftJoin (Table join) (Eq leftCol (Ex rightCol))]\<rparr>
      in
        if length (Columns join) > 0 then
          foldl (\<lambda>q col. SelectAppend (Col (Table join) (TrimSpace col)) q) query1 (Columns join)
        else SelectAppend (All (Table join)) query1)"

section \<open>Order and pagination\<close>

definition orderBy :: "Values \<Rightarrow> SelectDataset \<Rightarrow> SelectDataset" where
  "orderBy params query =
     (let order = Get params ''order'' in
      if order \<noteq> [] then
        (case SplitN2 order CHR ''.'' of
           [p0, p1] \<Rightarrow>
             if p1 = ''desc'' then query\<lparr>dsOrder := dsOrder query @ [Desc (C p0)]\<rparr>
             else query\<lparr>dsOrder := dsOrder query @ [Asc (C p0)]\<rparr>
         | p0 # _ \<Rightarrow> query\<lparr>dsOrder := dsOrder query @ [Asc (C p0)]\<rparr>
         | [] \<Rightarrow> query)
      else query)"

text \<open>
  \<^verbatim>\<open>strconv.Atoi\<close> where \<^verbatim>\<open>int\<close> has 64 bits: an optional sign and decimal digits, at
  least one, whose value fits; \<open>None\<close> stands for the error.
\<close>

definition isDigit :: "char \<Rightarrow> bool" where
  "isDigit c = (0x30 \<le> byte c \<and> byte c \<le> 0x39)"

definition digitsValue :: "string \<Rightarrow> nat" where
  "digitsValue ds = foldl (\<lambda>n c. n * 10 + (byte c - 0x30)) 0 ds"

definition Atoi :: "string \<Rightarrow> int option" where
  "Atoi s =
     (let signed = (s \<noteq> [] \<and> (hd s = CHR ''-'' \<or> hd s = CHR ''+''));
          neg = (s \<noteq> [] \<and> hd s = CHR ''-'');
          ds = (if signed then tl s else s)
      in
        if ds = [] \<or> \<not> list_all isDigit ds then None
        else if neg then
          (if digitsValue ds \<le> 2 ^ 63 then Some (- int (digitsValue ds)) else None)
        else
          (if digitsValue ds < 2 ^ 63 then Some (int (digitsValue ds)) else None))"

text \<open>The conversion \<^verbatim>\<open>uint(n)\<close> of an \<^verbatim>\<open>int\<close> of 64 bits: the value modulo \<open>2^64\<close>.\<close>

definition uint :: "int \<Rightarrow> nat" where
  "uint n = nat (n mod 2 ^ 64)"

definition limitClause :: "Values \<Rightarrow> SelectDataset \<Rightarrow> SelectDataset" where
  "limitClause params query =
     (let limit = Get params ''limit'' in
      if limit \<noteq> [] then
        (case Atoi limit of
           Some n \<Rightarrow> query\<lparr>dsLimit := Some (uint n)\<rparr>
         | None \<Rightarrow> query)
      else query)"

definition offsetClause :: "Values \<Rightarrow> SelectDataset \<Rightarrow> SelectDataset" where
  "offsetClause params query =
     (let offset = Get params ''offset'' in
      if offset \<noteq> [] then
        (case Atoi offset of
           Some n \<Rightarrow> query\<lparr>dsOffset := Some (uint n)\<rparr>
         | None \<Rightarrow> query)
      else query)"

section \<open>BuildQuery\<close>

definition BuildQuery :: "Querier \<Rightarrow> string \<Rightarrow> Values \<Rightarrow> error + SelectDataset" where
  "BuildQuery db table params =
     (case whereLoop params params (selectColumns db table params (From table)) of
        Inl e \<Rightarrow> Inl e
      | Inr query \<Rightarrow>
          Inr (offsetClause params (limitClause params (orderBy params
                 (foldl (\<lambda>q join. applyJoin q join table) query (parseJoins params table))))))"

section \<open>HandleSelect\<close>

text \<open>
  The start of \<^verbatim>\<open>HandleSelect\<close>, lines 16 to 32: a request without the header
  \<^verbatim>\<open>X-Tenant-ID\<close> is answered with status 400, a transaction that does not begin
  with status 500; otherwise the text below is sent with \<^verbatim>\<open>tx.Exec\<close> to set the
  search path. \<open>beginOk\<close> tells whether \<^verbatim>\<open>DB.Begin\<close> succeeds.
\<close>

definition searchPathStatement :: "bool \<Rightarrow> string \<Rightarrow> nat + string" where
  "searchPathStatement beginOk tenants =
     (if tenants = [] then Inl 400
      else if beginOk then
        Inr (''SET LOCAL search_path TO '' @ [CHR 0x22] @ tenants @ [CHR 0x22])
      else Inl 500)"

section \<open>Reading a compiled query\<close>

text \<open>The column that a condition of the WHERE clause constrains.\<close>

fun condColumn :: "condition \<Rightarrow> expression" where
  "condColumn (Eq e x) = e"
| "condColumn (Gt e x) = e"
| "condColumn (Lt e x) = e"
| "condColumn (Gte e x) = e"
| "condColumn (Lte e x) = e"
| "condColumn (Like e x) = e"
| "condColumn (In e x) = e"

section \<open>Sample schema catalogs\<close>

text \<open>A catalog in which \<open>movies\<close> has the column \<open>director_id\<close> and nothing else exists.\<close>

definition movieCatalog :: Querier where
  "movieCatalog table column = Some (table = ''movies'' \<and> column = ''director_id'')"

text \<open>A catalog in which \<open>posts\<close> has the column \<open>author_id\<close> and nothing else exists.\<close>

definition blogCatalog :: Querier where
  "blogCatalog table column = Some (table = ''posts'' \<and> column = ''author_id'')"

text \<open>A connection on which every catalog query fails.\<close>

definition failingCatalog :: Querier where
  "failingCatalog table column = None"

section \<open>UTF-8: decoding a well-formed sequence and encoding it again\<close>

lemma divmod_base:
  fixes x k m :: nat
  assumes "x < m"
  shows "(k * m + x) div m = k" "(k * m + x) mod m = x"
  using assms by simp_all

lemma cont_mod: fixes b :: nat assumes "128 \<le> b" "b \<le> 191" shows "b mod 64 = b - 128"
proof -
  have "b = 2 * 64 + (b - 128)" using assms by simp
  then have "b mod 64 = (2 * 64 + (b - 128)) mod 64" by simp
  also have "\<dots> = b - 128" using assms by (subst divmod_base) simp_all
  finally show ?thesis .
qed

lemma lead2_mod: fixes a :: nat assumes "192 \<le> a" "a \<le> 223" shows "a mod 32 = a - 192"
proof -
  have "a = 6 * 32 + (a - 192)" using assms by simp
  then have "a mod 32 = (6 * 32 + (a - 192)) mod 32" by simp
  also have "\<dots> = a - 192" using assms by (subst divmod_base) simp_all
  finally show ?thesis .
qed

lemma lead3_mod: fixes a :: nat assumes "224 \<le> a" "a \<le> 239" shows "a mod 16 = a - 224"
proof -
  have "a = 14 * 16 + (a - 224)" using assms by simp
  then have "a mod 16 = (14 * 16 + (a - 224)) mod 16" by simp
  also have "\<dots> = a - 224" using assms by (subst divmod_base) simp_all
  finally show ?thesis .
qed

lemma lead4_mod: fixes a :: nat assumes "240 \<le> a" "a \<le> 247" shows "a mod 8 = a - 240"
proof -
  have "a = 30 * 8 + (a - 240)" using assms by simp
  then have "a mod 8 = (30 * 8 + (a - 240)) mod 8" by simp
  also have "\<dots> = a - 240" using assms by (subst divmod_base) simp_all
  finally show ?thesis .
qed

lemma encode_decode2:
  fixes a b :: nat
  assumes a: "194 \<le> a" "a \<le> 223" and b: "128 \<le> b" "b \<le> 191"
  defines "r \<equiv> (a mod 32) * 64 + b mod 64"
  shows "127 < r" "r \<le> 2047" "192 + r div 64 = a" "128 + r mod 64 = b"
proof -
  define x where "x = a - 192"
  define y where "y = b - 128"
  have r: "r = x * 64 + y"
    using a b by (simp add: r_def x_def y_def lead2_mod cont_mod)
  have y: "y < 64" and x: "2 \<le> x" "x \<le> 31" using a b by (simp_all add: x_def y_def)
  show "127 < r" using x y by (simp add: r)
  show "r \<le> 2047" using x y by (simp add: r)
  have "r div 64 = x" using y unfolding r by (rule divmod_base)
  then show "192 + r div 64 = a" using a by (simp add: x_def)
  have "r mod 64 = y" using y unfolding r by (rule divmod_base)
  then show "128 + r mod 64 = b" using b by (simp add: y_def)
qed

lemma encode_decode3:
  fixes a b c :: nat
  assumes a: "224 \<le> a" "a \<le> 239" and b: "128 \<le> b" "b \<le> 191" and c: "128 \<le> c" "c \<le> 191"
    and lo: "a = 224 \<Longrightarrow> 160 \<le> b" and hi: "a = 237 \<Longrightarrow> b \<le> 159"
  defines "r \<equiv> (a mod 16) * 4096 + (b mod 64) * 64 + c mod 64"
  shows "2047 < r" "r \<le> 65535" "\<not> (55296 \<le> r \<and> r \<le> 57343)"
    "224 + r div 4096 = a" "128 + (r div 64) mod 64 = b" "128 + r mod 64 = c"
proof -
  define x where "x = a - 224"
  define y where "y = b - 128"
  define z where "z = c - 128"
  have r: "r = x * 4096 + y * 64 + z"
    using a b c by (simp add: r_def x_def y_def z_def lead3_mod cont_mod)
  have z: "z < 64" and y: "y < 64" and x: "x \<le> 15"
    using a b c by (simp_all add: x_def y_def z_def)
  have x0: "32 \<le> y" if "x = 0"
  proof -
    from that a have "a = 224" by (simp add: x_def)
    then have "160 \<le> b" by (rule lo)
    then show ?thesis by (simp add: y_def)
  qed
  have x13: "y \<le> 31" if "x = 13"
  proof -
    from that a have "a = 237" by (simp add: x_def)
    then have "b \<le> 159" by (rule hi)
    then show ?thesis by (simp add: y_def)
  qed
  show "2047 < r"
  proof (cases "x = 0")
    case True then show ?thesis using x0 by (simp add: r)
  next
    case False then have "1 \<le> x" by simp
    then show ?thesis by (simp add: r)
  qed
  show "r \<le> 65535" using x y z by (simp add: r)
  show "\<not> (55296 \<le> r \<and> r \<le> 57343)"
  proof (cases "x = 13")
    case True then show ?thesis using x13 y z by (simp add: r)
  next
    case False
    then have "x \<le> 12 \<or> 14 \<le> x" by arith
    then show ?thesis using y z by (auto simp add: r)
  qed
  have r1: "r = (x * 64 + y) * 64 + z" by (simp add: r)
  have d64: "r div 64 = x * 64 + y" using z unfolding r1 by (rule divmod_base)
  have "(r div 64) mod 64 = y" using y unfolding d64 by (rule divmod_base)
  then show "128 + (r div 64) mod 64 = b" using b by (simp add: y_def)
  have "r mod 64 = z" using z unfolding r1 by (rule divmod_base)
  then show "128 + r mod 64 = c" using c by (simp add: z_def)
  have "y * 64 + z < 4096" using y z by simp
  then have "(x * 4096 + (y * 64 + z)) div 4096 = x" by (rule divmod_base)
  then have "r div 4096 = x" by (simp add: r add.assoc)
  then show "224 + r div 4096 = a" using a by (simp add: x_def)
qed

lemma encode_decode4:
  fixes a b c d :: nat
  assumes a: "240 \<le> a" "a \<le> 244" and b: "128 \<le> b" "b \<le> 191" and c: "128 \<le> c" "c \<le> 191"
    and d: "128 \<le> d" "d \<le> 191"
    and lo: "a = 240 \<Longrightarrow> 144 \<le> b" and hi: "a = 244 \<Longrightarrow> b \<le> 143"
  defines "r \<equiv> (a mod 8) * 262144 + (b mod 64) * 4096 + (c mod 64) * 64 + d mod 64"
  shows "65535 < r" "r \<le> 1114111"
    "240 + r div 262144 = a" "128 + (r div 4096) mod 64 = b" "128 + (r div 64) mod 64 = c"
    "128 + r mod 64 = d"
proof -
  define x where "x = a - 240"
  define y where "y = b - 128"
  define z where "z = c - 128"
  define w where "w = d - 128"
  have r: "r = x * 262144 + y * 4096 + z * 64 + w"
    using a b c d by (simp add: r_def x_def y_def z_def w_def lead4_mod cont_mod)
  have w: "w < 64" and z: "z < 64" and y: "y < 64" and x: "x \<le> 4"
    using a b c d by (simp_all add: x_def y_def z_def w_def)
  have x0: "16 \<le> y" if "x = 0"
  proof -
    from that a have "a = 240" by (simp add: x_def)
    then have "144 \<le> b" by (rule lo)
    then show ?thesis by (simp add: y_def)
  qed
  have x4: "y \<le> 15" if "x = 4"
  proof -
    from that a have "a = 244" by (simp add: x_def)
    then have "b \<le> 143" by (rule hi)
    then show ?thesis by (simp add: y_def)
  qed
  show "65535 < r"
  proof (cases "x = 0")
    case True then show ?thesis using x0 by (simp add: r)
  next
    case False then have "1 \<le> x" by simp
    then show ?thesis by (simp add: r)
  qed
  show "r \<le> 1114111"
  proof (cases "x = 4")
    case True then show ?thesis using x4 z w by (simp add: r)
  next
    case False then have "x \<le> 3" using x by simp
    then show ?thesis using y z w by (simp add: r)
  qed
  have r1: "r = ((x * 64 + y) * 64 + z) * 64 + w" by (simp add: r)
  have d64: "r div 64 = (x * 64 + y) * 64 + z" using w unfolding r1 by (rule divmod_base)
  have "(r div 64) mod 64 = z" using z unfolding d64 by (rule divmod_base)
  then show "128 + (r div 64) mod 64 = c" using c by (simp add: z_def)
  have "r mod 64 = w" using w unfolding r1 by (rule divmod_base)
  then show "128 + r mod 64 = d" using d by (simp add: w_def)
  have "z * 64 + w < 4096" using z w by simp
  then have "((x * 64 + y) * 4096 + (z * 64 + w)) div 4096 = x * 64 + y" by (rule divmod_base)
  then have d4096: "r div 4096 = x * 64 + y" by (simp add: r add.assoc)
  have "(r div 4096) mod 64 = y" using y unfolding d4096 by (rule divmod_base)
  then show "128 + (r div 4096) mod 64 = b" using b by (simp add: y_def)
  have "y * 4096 + z * 64 + w < 262144" using y z w by simp
  then have "(x * 262144 + (y * 4096 + z * 64 + w)) div 262144 = x" by (rule divmod_base)
  then have "r div 262144 = x" by (simp add: r add.assoc)
  then show "240 + r div 262144 = a" using a by (simp add: x_def)
qed

lemma char_of_byte: "char_of (byte c) = c"
  by (simp add: byte_def)

lemma seqLen_cases:
  obtains (ascii) "b < 128" "seqLen b = 1"
  | (bad) "128 \<le> b" "seqLen b = 0"
  | (two) "194 \<le> b" "b \<le> 223" "seqLen b = 2"
  | (three) "224 \<le> b" "b \<le> 239" "seqLen b = 3"
  | (four) "240 \<le> b" "b \<le> 244" "seqLen b = 4"
  by (auto simp add: seqLen_def split: if_splits) force

lemma accept_two: "194 \<le> b \<Longrightarrow> b \<le> 223 \<Longrightarrow> acceptLo b = 128 \<and> acceptHi b = 191"
  by (simp add: acceptLo_def acceptHi_def)

lemma AppendRune_Decode:
  assumes ne: "s \<noteq> []"
    and ok: "byte (hd s) < 0x80 \<or> 1 < snd (DecodeRuneInString s)"
  shows "AppendRune (fst (DecodeRuneInString s)) = take (snd (DecodeRuneInString s)) s"
proof -
  from ne obtain c0 t where s: "s = c0 # t" by (cases s) auto
  show ?thesis
  proof (cases "byte c0" rule: seqLen_cases)
    case ascii
    then show ?thesis
      by (simp add: s DecodeRuneInString_def AppendRune_def char_of_byte)
  next
    case bad
    with ok show ?thesis by (simp add: s DecodeRuneInString_def)
  next
    case two
    from ok two have w: "1 < snd (DecodeRuneInString s)" by (simp add: s)
    have "t \<noteq> []" using w two by (auto simp add: s DecodeRuneInString_def)
    then obtain c1 t' where t: "t = c1 # t'" by (cases t) auto
    have rng: "128 \<le> byte c1" "byte c1 \<le> 191"
      using w two accept_two [of "byte c0"]
      by (auto simp add: s t DecodeRuneInString_def Let_def split: if_splits)
    have dec: "DecodeRuneInString s = ((byte c0 mod 32) * 64 + byte c1 mod 64, 2)"
      using two rng accept_two [of "byte c0"]
      by (simp add: s t DecodeRuneInString_def Let_def)
    define r where "r = (byte c0 mod 32) * 64 + byte c1 mod 64"
    have f: "127 < r" "r \<le> 2047" "192 + r div 64 = byte c0" "128 + r mod 64 = byte c1"
      unfolding r_def by (rule encode_decode2 [OF two(1) two(2) rng])+
    have "AppendRune r = [char_of (192 + r div 64), char_of (128 + r mod 64)]"
      using f(1) f(2) by (simp add: AppendRune_def)
    also have "\<dots> = [c0, c1]" by (simp only: f char_of_byte)
    finally show ?thesis unfolding dec r_def [symmetric] by (simp add: s t)
  next
    case three
    from ok three have w: "1 < snd (DecodeRuneInString s)" by (simp add: s)
    have len: "\<not> length s < 3"
      using w three by (auto simp add: s DecodeRuneInString_def)
    then obtain c1 c2 t' where t: "t = c1 # c2 # t'"
      by (cases t; cases "tl t") (auto simp add: s)
    have r1: "\<not> (byte c1 < acceptLo (byte c0) \<or> acceptHi (byte c0) < byte c1)"
      using w three by (auto simp add: s t DecodeRuneInString_def Let_def split: if_splits)
    have r2: "128 \<le> byte c2" "byte c2 \<le> 191"
      using w three r1 by (auto simp add: s t DecodeRuneInString_def Let_def split: if_splits)
    have b1: "128 \<le> byte c1" "byte c1 \<le> 191"
      using r1 by (auto simp add: acceptLo_def acceptHi_def split: if_splits)
    have lo: "byte c0 = 224 \<Longrightarrow> 160 \<le> byte c1"
      using r1 by (simp add: acceptLo_def)
    have hi: "byte c0 = 237 \<Longrightarrow> byte c1 \<le> 159"
      using r1 by (simp add: acceptHi_def)
    have dec: "DecodeRuneInString s =
        ((byte c0 mod 16) * 4096 + (byte c1 mod 64) * 64 + byte c2 mod 64, 3)"
      using three r1 r2 by (simp add: s t DecodeRuneInString_def Let_def)
    define r where "r = (byte c0 mod 16) * 4096 + (byte c1 mod 64) * 64 + byte c2 mod 64"
    have f: "2047 < r" "r \<le> 65535" "\<not> (55296 \<le> r \<and> r \<le> 57343)"
      "224 + r div 4096 = byte c0" "128 + (r div 64) mod 64 = byte c1" "128 + r mod 64 = byte c2"
      unfolding r_def using encode_decode3 [OF three(1) three(2) b1 r2 lo hi] by blast+
    have "AppendRune r = encode3 r"
      using f(1) f(2) f(3) by (auto simp add: AppendRune_def)
    also have "\<dots> = [char_of (224 + r div 4096), char_of (128 + (r div 64) mod 64),
        char_of (128 + r mod 64)]"
      by (simp add: encode3_def)
    also have "\<dots> = [c0, c1, c2]" by (simp only: f char_of_byte)
    finally show ?thesis unfolding dec r_def [symmetric] by (simp add: s t)
  next
    case four
    from ok four have w: "1 < snd (DecodeRuneInString s)" by (simp add: s)
    have len: "\<not> length s < 4"
      using w four by (auto simp add: s DecodeRuneInString_def)
    then obtain c1 c2 c3 t' where t: "t = c1 # c2 # c3 # t'"
      by (cases t; cases "tl t"; cases "tl (tl t)") (auto simp add: s)
    have r1: "\<not> (byte c1 < acceptLo (byte c0) \<or> acceptHi (byte c0) < byte c1)"
      using w four by (auto simp add: s t DecodeRuneInString_def Let_def split: if_splits)
    have r2: "128 \<le> byte c2" "byte c2 \<le> 191"
      using w four r1 by (auto simp add: s t DecodeRuneInString_def Let_def split: if_splits)
    have r3: "128 \<le> byte c3" "byte c3 \<le> 191"
      using w four r1 r2 by (auto simp add: s t DecodeRuneInString_def Let_def split: if_splits)
    have b1: "128 \<le> byte c1" "byte c1 \<le> 191"
      using r1 by (auto simp add: acceptLo_def acceptHi_def split: if_splits)
    have lo: "byte c0 = 240 \<Longrightarrow> 144 \<le> byte c1"
      using r1 by (simp add: acceptLo_def)
    have hi: "byte c0 = 244 \<Longrightarrow> byte c1 \<le> 143"
      using r1 by (simp add: acceptHi_def)
    have dec: "DecodeRuneInString s =
        ((byte c0 mod 8) * 262144 + (byte c1 mod 64) * 4096 + (byte c2 mod 64) * 64
           + byte c3 mod 64, 4)"
      using four r1 r2 r3 by (simp add: s t DecodeRuneInString_def Let_def)
    define r where "r = (byte c0 mod 8) * 262144 + (byte c1 mod 64) * 4096
        + (byte c2 mod 64) * 64 + byte c3 mod 64"
    have f: "65535 < r" "r \<le> 1114111"
      "240 + r div 262144 = byte c0" "128 + (r div 4096) mod 64 = byte c1"
      "128 + (r div 64) mod 64 = byte c2" "128 + r mod 64 = byte c3"
      unfolding r_def using encode_decode4 [OF four(1) four(2) b1 r2 r3 lo hi] by blast+
    have "AppendRune r = [char_of (240 + r div 262144), char_of (128 + (r div 4096) mod 64),
        char_of (128 + (r div 64) mod 64), char_of (128 + r mod 64)]"
      using f(1) f(2) by (simp add: AppendRune_def)
    also have "\<dots> = [c0, c1, c2, c3]" by (simp only: f char_of_byte)
    finally show ?thesis unfolding dec r_def [symmetric] by (simp add: s t)
  qed
qed

section \<open>Evaluating the string functions on ASCII text\<close>

lemma Decode_ascii: "byte c < 0x80 \<Longrightarrow> DecodeRuneInString (c # cs) = (byte c, 1)"
  by (simp add: DecodeRuneInString_def seqLen_def)

lemma runes_ascii: "byte c < 0x80 \<Longrightarrow> runes (c # cs) = byte c # runes cs"
  by (subst runes.simps) (simp add: Decode_ascii)

lemma ValidString_Nil: "ValidString []"
  by (simp add: ValidString.simps)

lemma ValidString_ascii: "byte c < 0x80 \<Longrightarrow> ValidString (c # cs) = ValidString cs"
  by (subst ValidString.simps) (simp add: Decode_ascii)

lemma AppendRune_ascii: "byte c < 0x80 \<Longrightarrow> AppendRune (byte c) = [c]"
  by (simp add: AppendRune_def char_of_byte)

lemma byte_eq_iff: "byte c = byte d \<longleftrightarrow> c = d"
  by (simp add: byte_def)

lemma byte_comma: "byte c = 0x2C \<longleftrightarrow> c = CHR '',''"
  using byte_eq_iff [of c "CHR '',''"] by (simp add: byte_def)

lemma byte_lparen: "byte c = 0x28 \<longleftrightarrow> c = CHR ''(''"
  using byte_eq_iff [of c "CHR ''(''"] by (simp add: byte_def)

lemma byte_rparen: "byte c = 0x29 \<longleftrightarrow> c = CHR '')''"
  using byte_eq_iff [of c "CHR '')''"] by (simp add: byte_def)

lemma splitLoop_ascii:
  "byte c < 0x80 \<Longrightarrow>
   foldl splitStep (fs, cur, depth) (runes (c # cs)) =
   foldl splitStep
     (if c = CHR '','' \<and> depth = 0 then (fs @ [cur], [], depth)
      else (fs, cur @ [c],
            if c = CHR ''('' then depth + 1
            else if c = CHR '')'' \<and> depth > 0 then depth - 1 else depth))
     (runes cs)"
  by (simp add: runes_ascii AppendRune_ascii byte_comma byte_lparen byte_rparen)

section \<open>splitSelectFields keeps the text\<close>

lemma AppendRune_nonempty: "AppendRune r \<noteq> []"
  by (simp add: AppendRune_def encode3_def)

lemma AppendRune_comma: "AppendRune 0x2C = '',''"
  using char_of_byte [of "CHR '',''"] by (simp add: AppendRune_def byte_def)

lemma Join_snoc: "Join (xs @ [x]) sep = (if xs = [] then x else Join xs sep @ sep @ x)"
  by (induction xs sep rule: Join.induct) simp_all

lemma runes_Nil: "runes [] = []"
  by (simp add: runes.simps)

lemma runes_eq_Nil: "runes s = [] \<longleftrightarrow> s = []"
  by (subst runes.simps) simp

lemma splitStep_depth: "snd (snd (splitStep (fs, cur, d) r)) = depthStep d r"
  by (simp add: depthStep_def)

lemma foldl_splitStep_depth:
  "snd (snd (foldl splitStep (fs, cur, d) rs)) = foldl depthStep d rs"
proof (induction rs arbitrary: fs cur d)
  case Nil
  show ?case by simp
next
  case (Cons r rs)
  obtain fs1 cur1 d1 where st: "splitStep (fs, cur, d) r = (fs1, cur1, d1)"
    by (cases "splitStep (fs, cur, d) r") auto
  have "d1 = depthStep d r" using splitStep_depth [of fs cur d r] by (simp only: st snd_conv)
  with Cons.IH [of fs1 cur1 d1] st show ?case by (simp del: splitStep.simps)
qed

lemma splitStep_joined:
  assumes "splitStep (fs, cur, d) r = (fs1, cur1, d1)"
  shows "Join (fs1 @ [cur1]) '','' = Join (fs @ [cur]) '','' @ AppendRune r"
proof (cases "r = 0x2C \<and> d = 0")
  case True
  with assms have "fs1 = fs @ [cur]" "cur1 = []" by simp_all
  have "Join ((fs @ [cur]) @ [[]]) '','' = Join (fs @ [cur]) '','' @ '',''"
    by (subst Join_snoc) simp
  with True \<open>fs1 = fs @ [cur]\<close> \<open>cur1 = []\<close> show ?thesis
    by (simp only: AppendRune_comma)
next
  case False
  with assms have "fs1 = fs" "cur1 = cur @ AppendRune r" by (simp_all split: if_splits)
  then show ?thesis by (simp add: Join_snoc)
qed

lemma splitLoop_joined:
  "ValidString s \<Longrightarrow> foldl splitStep (fs, cur, d) (runes s) = (fs', cur', d') \<Longrightarrow>
   Join (fs' @ [cur']) '','' = Join (fs @ [cur]) '','' @ s"
proof (induction s arbitrary: fs cur d rule: runes.induct)
  case (1 s)
  show ?case
  proof (cases "s = []")
    case True
    with "1.prems" show ?thesis by (simp add: runes_Nil)
  next
    case False
    let ?r = "fst (DecodeRuneInString s)"
    let ?n = "snd (DecodeRuneInString s)"
    from "1.prems"(1) False
    have ok: "byte (hd s) < 0x80 \<or> 1 < ?n" and rest: "ValidString (drop ?n s)"
      by (subst (asm) ValidString.simps, simp)+
    have rs: "runes s = ?r # runes (drop ?n s)"
      using False by (subst runes.simps) simp
    obtain fs1 cur1 d1 where st: "splitStep (fs, cur, d) ?r = (fs1, cur1, d1)"
      by (cases "splitStep (fs, cur, d) ?r") auto
    from "1.prems"(2) have "foldl splitStep (fs1, cur1, d1) (runes (drop ?n s)) = (fs', cur', d')"
      by (simp add: rs st del: splitStep.simps)
    from "1.IH" [OF False rest this]
    have "Join (fs' @ [cur']) '','' = Join (fs1 @ [cur1]) '','' @ drop ?n s" .
    also have "Join (fs1 @ [cur1]) '','' = Join (fs @ [cur]) '','' @ AppendRune ?r"
      by (rule splitStep_joined [OF st])
    also have "AppendRune ?r = take ?n s" by (rule AppendRune_Decode [OF False ok])
    finally show ?thesis by simp
  qed
qed

lemma splitLoop_empty_cur:
  assumes "foldl splitStep (fs, cur, d) rs = (fs', [], d')" and "rs \<noteq> []"
  shows "last rs = 0x2C \<and> foldl depthStep d (butlast rs) = 0"
proof -
  from \<open>rs \<noteq> []\<close> obtain rs' r where rs: "rs = rs' @ [r]" by (cases rs rule: rev_cases) auto
  obtain fs1 cur1 d1 where st: "foldl splitStep (fs, cur, d) rs' = (fs1, cur1, d1)"
    by (cases "foldl splitStep (fs, cur, d) rs'") auto
  have d1: "d1 = foldl depthStep d rs'"
    using foldl_splitStep_depth [of fs cur d rs'] by (simp only: st snd_conv)
  from assms(1) have "splitStep (fs1, cur1, d1) r = (fs', [], d')"
    by (simp add: rs st del: splitStep.simps)
  then have "r = 0x2C \<and> d1 = 0"
    using AppendRune_nonempty [of r] by (simp split: if_splits)
  with d1 show ?thesis by (simp add: rs)
qed

text \<open>
  C10, as amended. For every input that is well-formed UTF-8 and whose last rune is not a
  comma met at depth zero, joining the fields that \<^const>\<open>splitSelectFields\<close> returns with
  a comma gives the input back: the loop removes the commas at depth zero and nothing
  else.
\<close>

theorem splitSelectFields_Join:
  assumes "ValidString s" and "\<not> endsWithTopLevelComma s"
  shows "Join (splitSelectFields s) '','' = s"
proof -
  obtain fs' cur' d' where st: "foldl splitStep ([], [], 0) (runes s) = (fs', cur', d')"
    by (cases "foldl splitStep ([], [], 0) (runes s)") auto
  have joined: "Join (fs' @ [cur']) '','' = s"
    using splitLoop_joined [OF assms(1) st] by simp
  show ?thesis
  proof (cases "cur' = []")
    case False
    then show ?thesis by (simp add: splitSelectFields_def st joined)
  next
    case True
    have res: "splitSelectFields s = fs'" by (simp add: splitSelectFields_def st True)
    show ?thesis
    proof (cases "s = []")
      case True
      then show ?thesis by (simp add: splitSelectFields_def runes_Nil)
    next
      case False
      then have "runes s \<noteq> []" by (simp add: runes_eq_Nil)
      with st True have "last (runes s) = 0x2C \<and> foldl depthStep 0 (butlast (runes s)) = 0"
        using splitLoop_empty_cur [of "[]" "[]" 0 "runes s" fs' d'] by simp
      with \<open>runes s \<noteq> []\<close> have "endsWithTopLevelComma s"
        by (simp add: endsWithTopLevelComma_def)
      with assms(2) show ?thesis by simp
    qed
  qed
qed

theorem splitSelectFields_Join_witness:
  "ValidString [CHR ''i'', CHR ''d'', CHR '','', CHR 0xC3, CHR 0xA9, CHR ''('', CHR ''a'', CHR '','', CHR ''b'', CHR '')'']
   \<and> \<not> endsWithTopLevelComma [CHR ''i'', CHR ''d'', CHR '','', CHR 0xC3, CHR 0xA9, CHR ''('', CHR ''a'', CHR '','', CHR ''b'', CHR '')'']
   \<and> Join (splitSelectFields [CHR ''i'', CHR ''d'', CHR '','', CHR 0xC3, CHR 0xA9, CHR ''('', CHR ''a'', CHR '','', CHR ''b'', CHR '')'']) '',''
       = [CHR ''i'', CHR ''d'', CHR '','', CHR 0xC3, CHR 0xA9, CHR ''('', CHR ''a'', CHR '','', CHR ''b'', CHR '')'']"
proof -
  let ?s = "[CHR ''i'', CHR ''d'', CHR '','', CHR 0xC3, CHR 0xA9, CHR ''('', CHR ''a'', CHR '','', CHR ''b'', CHR '')'']"
  have dec: "DecodeRuneInString (CHR 0xC3 # CHR 0xA9 # cs) = (233, 2)" for cs
    by (simp add: DecodeRuneInString_def seqLen_def acceptLo_def acceptHi_def byte_def)
  have v: "ValidString ?s"
    by (simp add: ValidString_ascii byte_def)
      (subst ValidString.simps, simp add: dec ValidString_ascii ValidString_Nil byte_def)
  have rs: "runes ?s = [105, 100, 44, 233, 40, 97, 44, 98, 41]"
    by (simp add: runes_ascii byte_def)
      (subst runes.simps, simp add: dec runes_ascii runes_Nil byte_def)
  have e: "\<not> endsWithTopLevelComma ?s"
    by (simp add: endsWithTopLevelComma_def rs)
  from splitSelectFields_Join [OF v e] v e show ?thesis by simp
qed

text \<open>
  C10, as stated, fails on a string that is not well-formed UTF-8. The loop ranges over
  runes: the lone byte \<open>0xFF\<close> is read as U+FFFD, and \<^verbatim>\<open>WriteRune\<close> writes the three
  bytes of U+FFFD into the field.
\<close>

theorem splitSelectFields_Join_counterexample:
  "\<not> endsWithTopLevelComma [CHR 0xFF]
   \<and> Join (splitSelectFields [CHR 0xFF]) '','' = [CHR 0xEF, CHR 0xBF, CHR 0xBD]
   \<and> Join (splitSelectFields [CHR 0xFF]) '','' \<noteq> [CHR 0xFF]"
proof -
  have rs: "runes [CHR 0xFF] = [RuneError]"
    by (subst runes.simps)
      (simp add: DecodeRuneInString_def seqLen_def byte_def runes_Nil)
  have c: "char_of (239 :: nat) = CHR 0xEF" "char_of (191 :: nat) = CHR 0xBF"
    "char_of (189 :: nat) = CHR 0xBD"
    by code_simp+
  have enc: "AppendRune RuneError = [CHR 0xEF, CHR 0xBF, CHR 0xBD]"
    by (simp add: AppendRune_def encode3_def RuneError_def c)
  have "splitSelectFields [CHR 0xFF] = [[CHR 0xEF, CHR 0xBF, CHR 0xBD]]"
    by (simp add: splitSelectFields_def rs enc) (simp add: RuneError_def)
  moreover have "\<not> endsWithTopLevelComma [CHR 0xFF]"
    by (simp add: endsWithTopLevelComma_def rs RuneError_def)
  ultimately show ?thesis by simp
qed

section \<open>Select fields and relationship resolution\<close>

lemma isWord_ascii: "isWord c \<Longrightarrow> byte c < 0x80 \<and> \<not> asciiSpace (byte c)"
  by (auto simp add: isWord_def asciiSpace_def Let_def)

lemma isWord_not_lparen: "\<not> isWord CHR ''(''"
  by (simp add: isWord_def byte_def)

lemma TrimSpace_embed:
  assumes "isWord c" and "last (c # cs) = CHR '')''"
  shows "TrimSpace (c # cs) = c # cs"
proof -
  from assms(1) have c: "byte c < 0x80" "\<not> asciiSpace (byte c)"
    using isWord_ascii by blast+
  have l: "byte (last (c # cs)) = 0x29" by (simp only: assms(2)) (simp add: byte_def)
  have "trimRightASCII (c # cs) = c # cs"
    by (subst trimRightASCII.simps) (simp add: l asciiSpace_def del: last.simps)
  with c show ?thesis by simp
qed

lemma matchEmbed_embed:
  assumes "relTable \<noteq> []" and "\<forall>c\<in>set relTable. isWord c" and "CHR 0x0A \<notin> set colsStr"
  shows "matchEmbed (relTable @ ''('' @ colsStr @ '')'')
         = [relTable @ ''('' @ colsStr @ '')'', relTable, colsStr]"
proof -
  let ?f = "relTable @ ''('' @ colsStr @ '')''"
  have tw: "takeWhile isWord ?f = relTable"
    using assms(2) isWord_not_lparen by (simp add: takeWhile_append2)
  have dw: "dropWhile isWord ?f = ''('' @ colsStr @ '')''"
    using assms(2) isWord_not_lparen by (simp add: dropWhile_append2)
  show ?thesis
    unfolding matchEmbed_def tw dw Let_def using assms(1) assms(3)
    by (simp add: butlast_append)
qed

lemma selectField_embed:
  assumes "relTable \<noteq> []" and "\<forall>c\<in>set relTable. isWord c" and "CHR 0x0A \<notin> set colsStr"
  shows "selectField db table (relTable @ ''('' @ colsStr @ '')'')
         = L (embedSubquery db table relTable (embedCols colsStr))"
proof -
  let ?f = "relTable @ ''('' @ colsStr @ '')''"
  from assms(1) obtain c cs where rt: "relTable = c # cs" by (cases relTable) auto
  with assms(2) have w: "isWord c" by simp
  have "?f = c # (cs @ ''('' @ colsStr @ '')'')" by (simp add: rt)
  moreover have "last (c # (cs @ ''('' @ colsStr @ '')'')) = CHR '')''" by simp
  ultimately have ts: "TrimSpace ?f = ?f" using TrimSpace_embed [OF w] by simp
  show ?thesis
    unfolding selectField_def ts Let_def matchEmbed_embed [OF assms]
    by (simp add: Contains_def)
qed

lemma singularize_ies: "singularize (p @ ''ies'') = p @ ''y''"
  by (simp add: singularize_def HasSuffix_def TrimSuffix_def suffix_def)

lemma singularize_s:
  "\<not> HasSuffix (p @ ''s'') ''ies'' \<Longrightarrow> singularize (p @ ''s'') = p"
  by (simp add: singularize_def HasSuffix_def TrimSuffix_def suffix_def)

lemma singularize_other:
  "\<not> HasSuffix name ''s'' \<Longrightarrow> singularize name = name"
  by (auto simp add: singularize_def HasSuffix_def suffix_def)

lemma embedSubquery_eq:
  "embedSubquery db table relTable cols =
     (if db table (singularize relTable @ ''_id'') = Some True
      then manyToOneSQL relTable table (singularize relTable @ ''_id'')
      else oneToManySQL (if cols = [] then ''*'' else Join cols '','') relTable
             (singularize table @ ''_id'') table)"
  by (auto simp add: embedSubquery_def columnExists_def Let_def split: option.splits)

lemma matchEmbed_Contains:
  assumes "matchEmbed g = [m0, relTable, colsStr]"
  shows "Contains g CHR ''('' \<and> Contains g CHR '')''"
proof -
  define rest where "rest = dropWhile isWord g"
  from assms have c: "2 \<le> length rest" "hd rest = CHR ''(''" "last rest = CHR '')''"
    by (simp_all add: matchEmbed_def Let_def rest_def split: if_splits)
  from c(1) have ne: "rest \<noteq> []" by auto
  then have "hd rest \<in> set rest" "last rest \<in> set rest" by simp_all
  moreover have "set rest \<subseteq> set g" by (auto simp add: rest_def dest: set_dropWhileD)
  ultimately have "hd rest \<in> set g" "last rest \<in> set g" by blast+
  with c show ?thesis by (simp add: Contains_def)
qed

lemma selectField_match:
  assumes "matchEmbed (TrimSpace f) = [m0, relTable, colsStr]"
  shows "selectField db table f = L (embedSubquery db table relTable (embedCols colsStr))"
  using matchEmbed_Contains [OF assms] assms by (simp add: selectField_def Let_def)

lemma selectField_no_match:
  assumes "matchEmbed (TrimSpace f) = []"
  shows "selectField db table f = C (TrimSpace f)"
  using assms by (simp add: selectField_def Let_def)

lemma embedSubquery_text:
  "embedSubquery db table relTable cols =
     (if db table (singularize relTable @ ''_id'') = Some True
      then ''(SELECT row_to_json('' @ relTable @ ''.*) FROM '' @ relTable @ '' WHERE ''
             @ relTable @ ''.id = '' @ table @ ''.'' @ singularize relTable @ ''_id''
             @ '' LIMIT 1) AS '' @ relTable
      else ''(SELECT COALESCE(json_agg(row_to_json(arr)), ''
             @ [CHR 0x27, CHR ''['', CHR '']'', CHR 0x27]
             @ ''::json) FROM (SELECT '' @ (if cols = [] then ''*'' else Join cols '','')
             @ '' FROM '' @ relTable @ '' WHERE '' @ relTable @ ''.''
             @ singularize table @ ''_id'' @ '' = '' @ table @ ''.id) arr) AS '' @ relTable)"
  by (simp add: embedSubquery_eq manyToOneSQL_def oneToManySQL_def)

lemma SplitFrom_nonempty: "SplitFrom cur sep s \<noteq> []"
  by (induction s arbitrary: cur) simp_all

lemma embedCols_Nil: "embedCols colsStr = [] \<longleftrightarrow> colsStr = []"
  by (simp add: embedCols_def Split_def SplitFrom_nonempty)

lemmas string_eval =
  splitSelectFields_def splitLoop_ascii runes_Nil trimRightASCII.simps asciiSpace_def
  matchEmbed_def matchEmbedPrefix_def isWord_def Contains_def byte_def Split_def SplitN2_def
  HasPrefix_def HasSuffix_def suffix_to_prefix TrimSuffix_def singularize_def Get_def embedCols_def

lemmas query_eval =
  BuildQuery_def selectColumns_def selectField_def embedSubquery_def columnExists_def
  whereStep_def reserved_def isRelatedResource_def applyOperator_def
  parseJoins_def parseJoinsStep_def parenthesesJoins_def parseParenthesesJoin_def
  extractEmbeddedRelations_def filterOperators_def applyJoin_def
  orderBy_def limitClause_def offsetClause_def From_def Select_def SelectAppend_def Where_def

text \<open>
  C4. For every root table and every related table, relationship resolution (lines 63
  to 98) asks the catalog for the column \<open>{singular of relTable}_id\<close> on the root table.
  When it exists the result is the scalar subquery
  \<^verbatim>\<open>(SELECT row_to_json(rel.*) FROM rel WHERE rel.id = table.{singular of rel}_id LIMIT 1) AS rel\<close>
  (many-to-one); otherwise it is the array subquery
  \<^verbatim>\<open>(SELECT COALESCE(json_agg(row_to_json(arr)), '[]'::json) FROM (SELECT cols FROM rel WHERE rel.{singular of table}_id = table.id) arr) AS rel\<close>
  (one-to-many), with \<open>*\<close> for an empty column list. Every select field that the embed
  pattern matches, with the groups \<open>rel\<close> and \<open>colsStr\<close>, is compiled to that subquery as
  a literal. The singular of a name ending in \<open>ies\<close> replaces that ending by \<open>y\<close>;
  otherwise a final \<open>s\<close> is removed; any other name is left as it is.
\<close>

theorem relationship_resolution:
  "embedSubquery db table relTable cols =
     (if db table (singularize relTable @ ''_id'') = Some True
      then ''(SELECT row_to_json('' @ relTable @ ''.*) FROM '' @ relTable @ '' WHERE ''
             @ relTable @ ''.id = '' @ table @ ''.'' @ singularize relTable @ ''_id''
             @ '' LIMIT 1) AS '' @ relTable
      else ''(SELECT COALESCE(json_agg(row_to_json(arr)), ''
             @ [CHR 0x27, CHR ''['', CHR '']'', CHR 0x27]
             @ ''::json) FROM (SELECT '' @ (if cols = [] then ''*'' else Join cols '','')
             @ '' FROM '' @ relTable @ '' WHERE '' @ relTable @ ''.''
             @ singularize table @ ''_id'' @ '' = '' @ table @ ''.id) arr) AS '' @ relTable)
   \<and> (matchEmbed (TrimSpace f) = [m0, rel, colsStr] \<longrightarrow>
        selectField db table f =
          L (if db table (singularize rel @ ''_id'') = Some True
             then ''(SELECT row_to_json('' @ rel @ ''.*) FROM '' @ rel @ '' WHERE ''
                    @ rel @ ''.id = '' @ table @ ''.'' @ singularize rel @ ''_id''
                    @ '' LIMIT 1) AS '' @ rel
             else ''(SELECT COALESCE(json_agg(row_to_json(arr)), ''
                    @ [CHR 0x27, CHR ''['', CHR '']'', CHR 0x27]
                    @ ''::json) FROM (SELECT ''
                    @ (if colsStr = [] then ''*''
                       else Join (map TrimSpace (Split colsStr CHR '','')) '','')
                    @ '' FROM '' @ rel @ '' WHERE '' @ rel @ ''.''
                    @ singularize table @ ''_id'' @ '' = '' @ table @ ''.id) arr) AS '' @ rel))
   \<and> singularize (p @ ''ies'') = p @ ''y''
   \<and> (\<not> HasSuffix (q @ ''s'') ''ies'' \<longrightarrow> singularize (q @ ''s'') = q)
   \<and> (\<not> HasSuffix n ''s'' \<longrightarrow> singularize n = n)"
proof -
  have "matchEmbed (TrimSpace f) = [m0, rel, colsStr] \<longrightarrow>
        selectField db table f =
          L (if db table (singularize rel @ ''_id'') = Some True
             then ''(SELECT row_to_json('' @ rel @ ''.*) FROM '' @ rel @ '' WHERE ''
                    @ rel @ ''.id = '' @ table @ ''.'' @ singularize rel @ ''_id''
                    @ '' LIMIT 1) AS '' @ rel
             else ''(SELECT COALESCE(json_agg(row_to_json(arr)), ''
                    @ [CHR 0x27, CHR ''['', CHR '']'', CHR 0x27]
                    @ ''::json) FROM (SELECT ''
                    @ (if colsStr = [] then ''*''
                       else Join (map TrimSpace (Split colsStr CHR '','')) '','')
                    @ '' FROM '' @ rel @ '' WHERE '' @ rel @ ''.''
                    @ singularize table @ ''_id'' @ '' = '' @ table @ ''.id) arr) AS '' @ rel)"
  proof
    assume m: "matchEmbed (TrimSpace f) = [m0, rel, colsStr]"
    show "selectField db table f = L (if db table (singularize rel @ ''_id'') = Some True
             then ''(SELECT row_to_json('' @ rel @ ''.*) FROM '' @ rel @ '' WHERE ''
                    @ rel @ ''.id = '' @ table @ ''.'' @ singularize rel @ ''_id''
                    @ '' LIMIT 1) AS '' @ rel
             else ''(SELECT COALESCE(json_agg(row_to_json(arr)), ''
                    @ [CHR 0x27, CHR ''['', CHR '']'', CHR 0x27]
                    @ ''::json) FROM (SELECT ''
                    @ (if colsStr = [] then ''*''
                       else Join (map TrimSpace (Split colsStr CHR '','')) '','')
                    @ '' FROM '' @ rel @ '' WHERE '' @ rel @ ''.''
                    @ singularize table @ ''_id'' @ '' = '' @ table @ ''.id) arr) AS '' @ rel)"
      unfolding selectField_match [OF m] embedSubquery_text embedCols_Nil
      by (simp add: embedCols_def)
  qed
  moreover note embedSubquery_text [of db table relTable cols]
  moreover have "singularize (p @ ''ies'') = p @ ''y''" by (rule singularize_ies)
  moreover have "\<not> HasSuffix (q @ ''s'') ''ies'' \<longrightarrow> singularize (q @ ''s'') = q"
    by (simp add: singularize_s)
  moreover have "\<not> HasSuffix n ''s'' \<longrightarrow> singularize n = n"
    by (simp add: singularize_other)
  ultimately show ?thesis by (intro conjI)
qed

theorem relationship_resolution_witness:
  "embedSubquery movieCatalog ''movies'' ''directors'' [''id'', ''name''] =
     ''(SELECT row_to_json(directors.*) FROM directors WHERE directors.id = movies.director_id LIMIT 1) AS directors''
   \<and> selectField movieCatalog ''movies'' ''directors(id,name)'' =
     L ''(SELECT row_to_json(directors.*) FROM directors WHERE directors.id = movies.director_id LIMIT 1) AS directors''
   \<and> embedSubquery blogCatalog ''authors'' ''posts'' [''id'', ''content''] =
     ''(SELECT COALESCE(json_agg(row_to_json(arr)), '' @ [CHR 0x27, CHR ''['', CHR '']'', CHR 0x27]
       @ ''::json) FROM (SELECT id,content FROM posts WHERE posts.author_id = authors.id) arr) AS posts''
   \<and> selectField blogCatalog ''authors'' ''posts(id,content)'' =
     L (''(SELECT COALESCE(json_agg(row_to_json(arr)), '' @ [CHR 0x27, CHR ''['', CHR '']'', CHR 0x27]
       @ ''::json) FROM (SELECT id,content FROM posts WHERE posts.author_id = authors.id) arr) AS posts'')
   \<and> singularize ''categories'' = ''category''
   \<and> singularize ''directors'' = ''director''
   \<and> singularize ''staff'' = ''staff''"
proof -
  have md: "matchEmbed (TrimSpace ''directors(id,name)'')
      = [''directors(id,name)'', ''directors'', ''id,name'']"
    and mp: "matchEmbed (TrimSpace ''posts(id,content)'')
      = [''posts(id,content)'', ''posts'', ''id,content'']"
    by (simp_all add: string_eval)
  have s: "\<not> HasSuffix (''director'' @ ''s'') ''ies''" "\<not> HasSuffix ''staff'' ''s''"
    by (simp_all add: HasSuffix_def suffix_to_prefix)
  have sg: "singularize ''directors'' = ''director''" "singularize ''movies'' = ''movy''"
    "singularize ''posts'' = ''post''" "singularize ''authors'' = ''author''"
    by (simp_all add: string_eval)
  have t: "map TrimSpace (Split ''id,name'' CHR '','') = [''id'', ''name'']"
    "map TrimSpace (Split ''id,content'' CHR '','') = [''id'', ''content'']"
    by (simp_all add: string_eval)
  from relationship_resolution [of movieCatalog "''movies''" "''directors''" "[''id'', ''name'']"
      "''directors(id,name)''" "''directors(id,name)''" "''directors''" "''id,name''"
      "''categor''" "''director''" "''staff''"] md s
  have m: "embedSubquery movieCatalog ''movies'' ''directors'' [''id'', ''name''] =
     ''(SELECT row_to_json(directors.*) FROM directors WHERE directors.id = movies.director_id LIMIT 1) AS directors''
   \<and> selectField movieCatalog ''movies'' ''directors(id,name)'' =
     L ''(SELECT row_to_json(directors.*) FROM directors WHERE directors.id = movies.director_id LIMIT 1) AS directors''
   \<and> singularize ''categories'' = ''category''
   \<and> singularize ''directors'' = ''director''
   \<and> singularize ''staff'' = ''staff''"
    by (simp add: movieCatalog_def sg)
  from relationship_resolution [of blogCatalog "''authors''" "''posts''" "[''id'', ''content'']"
      "''posts(id,content)''" "''posts(id,content)''" "''posts''" "''id,content''"] mp
  have b: "embedSubquery blogCatalog ''authors'' ''posts'' [''id'', ''content''] =
     ''(SELECT COALESCE(json_agg(row_to_json(arr)), '' @ [CHR 0x27, CHR ''['', CHR '']'', CHR 0x27]
       @ ''::json) FROM (SELECT id,content FROM posts WHERE posts.author_id = authors.id) arr) AS posts''
   \<and> selectField blogCatalog ''authors'' ''posts(id,content)'' =
     L (''(SELECT COALESCE(json_agg(row_to_json(arr)), '' @ [CHR 0x27, CHR ''['', CHR '']'', CHR 0x27]
       @ ''::json) FROM (SELECT id,content FROM posts WHERE posts.author_id = authors.id) arr) AS posts'')"
    by (simp add: blogCatalog_def sg t)
  from m b show ?thesis by simp
qed

text \<open>
  The modifier defeats the pattern for every table name of word characters: the longest
  prefix of word characters is followed by \<open>!\<close>, not by \<open>(\<close>.
\<close>

lemma matchEmbed_inner:
  assumes "\<forall>c\<in>set relTable. isWord c"
  shows "matchEmbed (relTable @ ''!inner('' @ colsStr @ '')'') = []"
proof -
  have b: "\<not> isWord CHR ''!''" by (simp add: isWord_def byte_def)
  have "dropWhile isWord (relTable @ ''!inner('' @ colsStr @ '')'') = ''!inner('' @ colsStr @ '')''"
    using assms b by (simp add: dropWhile_append2)
  then show ?thesis by (simp add: matchEmbed_def Let_def)
qed

text \<open>
  C1. The field \<open>posts!inner(id,content)\<close> of the documented request
  \<^verbatim>\<open>select=id,first_name,posts!inner(id,content)\<close> is not recognised as an embed: the
  pattern of line 51 wants \<open>(\<close> right after the word characters, finds \<open>!\<close>, and the
  whole field, modifier included, becomes the name of a plain column.
\<close>

theorem inner_modifier_compiled_as_column:
  "matchEmbed ''posts!inner(id,content)'' = []
   \<and> selectField db ''authors'' ''posts!inner(id,content)'' = C ''posts!inner(id,content)''"
  by (simp add: string_eval query_eval)

text \<open>
  C2. The field \<open>posts(id,content,stats(id,views))\<close> stays one field at the top level,
  but its child list is cut at every comma by \<^verbatim>\<open>strings.Split\<close>, without regard to
  the parentheses: the four pieces \<open>id\<close>, \<open>content\<close>, \<open>stats(id\<close> and \<open>views)\<close>. They are
  joined back into the column list of the subquery; no embed is compiled for \<open>stats\<close>.
\<close>

theorem child_list_split_inside_parentheses:
  "splitSelectFields ''posts(id,content,stats(id,views))'' = [''posts(id,content,stats(id,views))'']
  \<and> matchEmbed ''posts(id,content,stats(id,views))''
      = [''posts(id,content,stats(id,views))'', ''posts'', ''id,content,stats(id,views)'']
  \<and> embedCols ''id,content,stats(id,views)'' = [''id'', ''content'', ''stats(id'', ''views)'']
  \<and> selectField blogCatalog ''authors'' ''posts(id,content,stats(id,views))''
      = L (oneToManySQL ''id,content,stats(id,views)'' ''posts'' ''author_id'' ''authors'')"
  by (simp add: string_eval query_eval blogCatalog_def)

text \<open>
  No select expression adds a condition or a join: a request with the \<open>select\<close>
  parameter alone is compiled to a query with an empty WHERE clause.
\<close>

lemma select_adds_no_condition:
  "\<exists>q. BuildQuery db table [(''select'', [s])] = Inr q \<and> dsWhere q = [] \<and> dsJoins q = []"
  by (simp add: BuildQuery_def whereStep_def reserved_def parseJoins_def parseJoinsStep_def
      orderBy_def limitClause_def offsetClause_def Get_def selectColumns_def From_def
      Select_def Let_def)

text \<open>
  C3. For the documented request \<^verbatim>\<open>select=id,first_name,posts!inner(id,content)\<close> on
  \<open>authors\<close> the compiled query has an empty WHERE clause and no join: nothing excludes
  the authors without posts.
\<close>

theorem inner_modifier_adds_no_predicate:
  "BuildQuery db ''authors'' [(''select'', [''id,first_name,posts!inner(id,content)''])]
  = Inr \<lparr>dsFrom = ''authors'',
         dsSelect = [C ''id'', C ''first_name'', C ''posts!inner(id,content)''],
         dsWhere = [], dsJoins = [], dsOrder = [], dsLimit = None, dsOffset = None\<rparr>"
  by (simp add: string_eval query_eval)

text \<open>
  C5. With \<open>director_id\<close> on \<open>movies\<close>, the field \<open>directors(id,name)\<close> is compiled to
  the scalar subquery over \<^verbatim>\<open>row_to_json(directors.*)\<close>: the whole related row, not
  the two listed columns.
\<close>

theorem many_to_one_ignores_child_columns:
  "BuildQuery movieCatalog ''movies'' [(''select'', [''directors(id,name)''])]
  = Inr \<lparr>dsFrom = ''movies'',
         dsSelect = [L ''(SELECT row_to_json(directors.*) FROM directors WHERE directors.id = movies.director_id LIMIT 1) AS directors''],
         dsWhere = [], dsJoins = [], dsOrder = [], dsLimit = None, dsOffset = None\<rparr>"
  by (simp add: string_eval query_eval movieCatalog_def manyToOneSQL_def)

section \<open>What every compilation keeps\<close>

lemma selectColumns_keeps:
  "dsWhere (selectColumns db table params q) = dsWhere q"
  "dsJoins (selectColumns db table params q) = dsJoins q"
  "dsLimit (selectColumns db table params q) = dsLimit q"
  "dsOffset (selectColumns db table params q) = dsOffset q"
  "dsFrom (selectColumns db table params q) = dsFrom q"
  by (simp_all add: selectColumns_def Select_def Let_def)

lemma applyOperator_keeps:
  "dsFrom (applyOperator key op v q) = dsFrom q"
  "dsLimit (applyOperator key op v q) = dsLimit q"
  "dsOffset (applyOperator key op v q) = dsOffset q"
  by (simp_all add: applyOperator_def Where_def)

lemma applyOperator_columns:
  "set (map condColumn (dsWhere (applyOperator key op v q)))
     \<subseteq> insert (C key) (set (map condColumn (dsWhere q)))"
  by (simp add: applyOperator_def Where_def subset_insertI)

lemma applyOperator_unsupported:
  "\<not> filterOperators op \<Longrightarrow> applyOperator key op v q = q"
  by (simp add: applyOperator_def filterOperators_def)

lemma whereStep_result:
  assumes "val \<noteq> []"
  shows "whereStep params (key, val) q = Inr q
    \<or> (\<exists>op v. SplitN2 (hd val) CHR ''.'' = [op, v]
          \<and> whereStep params (key, val) q = Inr (applyOperator key op v q))"
proof -
  from assms obtain v0 vs where val: "val = v0 # vs" by (cases val) auto
  show ?thesis
  proof (cases "reserved key \<or> Contains key CHR ''.'' \<or> Contains key CHR ''(''
                \<or> isRelatedResource key params")
    case True
    then show ?thesis by (auto simp add: whereStep_def)
  next
    case False
    show ?thesis
    proof (cases "\<exists>op v. SplitN2 v0 CHR ''.'' = [op, v]")
      case True
      then obtain op v where sp: "SplitN2 v0 CHR ''.'' = [op, v]" by blast
      with False have "whereStep params (key, val) q = Inr (applyOperator key op v q)"
        by (simp add: whereStep_def val)
      with sp show ?thesis by (auto simp add: val)
    next
      case nosplit: False
      then have "whereStep params (key, val) q = Inr q"
        using False by (auto simp add: whereStep_def val SplitN2_def)
      then show ?thesis by simp
    qed
  qed
qed

lemma whereLoop_props:
  assumes "[] \<notin> set (map snd rest)"
    and "\<forall>val op v. (key, val) \<in> set rest \<longrightarrow>
           SplitN2 (hd val) CHR ''.'' = [op, v] \<longrightarrow> \<not> filterOperators op"
    and "C key \<notin> set (map condColumn (dsWhere q))"
  shows "\<exists>q'. whereLoop params rest q = Inr q'
    \<and> dsFrom q' = dsFrom q \<and> dsLimit q' = dsLimit q \<and> dsOffset q' = dsOffset q
    \<and> C key \<notin> set (map condColumn (dsWhere q'))"
  using assms
proof (induction rest arbitrary: q)
  case Nil
  then show ?case by simp
next
  case (Cons kv rest)
  obtain k val where kv: "kv = (k, val)" by (cases kv) auto
  from Cons.prems(1) have val: "val \<noteq> []" and rest: "[] \<notin> set (map snd rest)"
    by (auto simp add: kv)
  have unsup: "\<forall>val op v. (key, val) \<in> set rest \<longrightarrow>
           SplitN2 (hd val) CHR ''.'' = [op, v] \<longrightarrow> \<not> filterOperators op"
    using Cons.prems(2) by auto
  have "\<exists>q1. whereStep params (k, val) q = Inr q1
      \<and> dsFrom q1 = dsFrom q \<and> dsLimit q1 = dsLimit q \<and> dsOffset q1 = dsOffset q
      \<and> C key \<notin> set (map condColumn (dsWhere q1))"
    using whereStep_result [OF val, of params k q]
  proof
    assume "whereStep params (k, val) q = Inr q"
    with Cons.prems(3) show ?thesis by simp
  next
    assume "\<exists>op v. SplitN2 (hd val) CHR ''.'' = [op, v]
          \<and> whereStep params (k, val) q = Inr (applyOperator k op v q)"
    then obtain op v where sp: "SplitN2 (hd val) CHR ''.'' = [op, v]"
      and ws: "whereStep params (k, val) q = Inr (applyOperator k op v q)" by blast
    have "C key \<notin> set (map condColumn (dsWhere (applyOperator k op v q)))"
    proof (cases "k = key")
      case True
      then have "(key, val) \<in> set (kv # rest)" by (simp add: kv)
      with Cons.prems(2) sp have "\<not> filterOperators op" by blast
      then have "applyOperator k op v q = q" by (rule applyOperator_unsupported)
      with Cons.prems(3) show ?thesis by simp
    next
      case False
      then have "C key \<notin> insert (C k) (set (map condColumn (dsWhere q)))"
        using Cons.prems(3) by simp
      with applyOperator_columns [of k op v q] show ?thesis by blast
    qed
    with ws show ?thesis by (simp add: applyOperator_keeps)
  qed
  then obtain q1 where st: "whereStep params (k, val) q = Inr q1"
    and keep: "dsFrom q1 = dsFrom q" "dsLimit q1 = dsLimit q" "dsOffset q1 = dsOffset q"
    and col: "C key \<notin> set (map condColumn (dsWhere q1))" by blast
  from Cons.IH [OF rest unsup col]
  obtain q' where "whereLoop params rest q1 = Inr q'"
    "dsFrom q' = dsFrom q1" "dsLimit q' = dsLimit q1" "dsOffset q' = dsOffset q1"
    "C key \<notin> set (map condColumn (dsWhere q'))" by blast
  with st keep show ?case by (simp add: kv)
qed

lemma applyJoin_keeps:
  "dsWhere (applyJoin q join table) = dsWhere q"
  "dsLimit (applyJoin q join table) = dsLimit q"
  "dsOffset (applyJoin q join table) = dsOffset q"
  "dsFrom (applyJoin q join table) = dsFrom q"
proof -
  have f: "dsWhere (foldl (\<lambda>q col. q\<lparr>dsSelect := dsSelect q @ [g col]\<rparr>) q0 cols) = dsWhere q0
      \<and> dsLimit (foldl (\<lambda>q col. q\<lparr>dsSelect := dsSelect q @ [g col]\<rparr>) q0 cols) = dsLimit q0
      \<and> dsOffset (foldl (\<lambda>q col. q\<lparr>dsSelect := dsSelect q @ [g col]\<rparr>) q0 cols) = dsOffset q0
      \<and> dsFrom (foldl (\<lambda>q col. q\<lparr>dsSelect := dsSelect q @ [g col]\<rparr>) q0 cols) = dsFrom q0"
    for g :: "string \<Rightarrow> expression" and q0 :: SelectDataset and cols
    by (induction cols arbitrary: q0) simp_all
  show "dsWhere (applyJoin q join table) = dsWhere q"
    "dsLimit (applyJoin q join table) = dsLimit q"
    "dsOffset (applyJoin q join table) = dsOffset q"
    "dsFrom (applyJoin q join table) = dsFrom q"
    by (simp_all add: applyJoin_def Let_def f SelectAppend_def)
qed

lemma joins_keep:
  "dsWhere (foldl (\<lambda>q join. applyJoin q join table) q js) = dsWhere q"
  "dsLimit (foldl (\<lambda>q join. applyJoin q join table) q js) = dsLimit q"
  "dsOffset (foldl (\<lambda>q join. applyJoin q join table) q js) = dsOffset q"
  "dsFrom (foldl (\<lambda>q join. applyJoin q join table) q js) = dsFrom q"
  by (induction js arbitrary: q) (simp_all add: applyJoin_keeps)

lemma orderBy_keeps:
  "dsWhere (orderBy params q) = dsWhere q"
  "dsLimit (orderBy params q) = dsLimit q"
  "dsOffset (orderBy params q) = dsOffset q"
  "dsFrom (orderBy params q) = dsFrom q"
  by (simp_all add: orderBy_def Let_def split: list.splits)

lemma limitClause_keeps:
  "dsWhere (limitClause params q) = dsWhere q"
  "dsOffset (limitClause params q) = dsOffset q"
  "dsFrom (limitClause params q) = dsFrom q"
  by (simp_all add: limitClause_def Let_def split: option.splits)

lemma offsetClause_keeps:
  "dsWhere (offsetClause params q) = dsWhere q"
  "dsLimit (offsetClause params q) = dsLimit q"
  "dsFrom (offsetClause params q) = dsFrom q"
  by (simp_all add: offsetClause_def Let_def split: option.splits)

lemma limitClause_None:
  "Atoi (Get params ''limit'') = None \<Longrightarrow> limitClause params q = q"
  by (simp add: limitClause_def Let_def)

lemma offsetClause_None:
  "Atoi (Get params ''offset'') = None \<Longrightarrow> offsetClause params q = q"
  by (simp add: offsetClause_def Let_def)

lemma BuildQuery_props:
  assumes "[] \<notin> set (map snd params)"
    and "\<forall>val op v. (key, val) \<in> set params \<longrightarrow>
           SplitN2 (hd val) CHR ''.'' = [op, v] \<longrightarrow> \<not> filterOperators op"
  shows "\<exists>q. BuildQuery db table params = Inr q \<and> dsFrom q = table
    \<and> C key \<notin> set (map condColumn (dsWhere q))
    \<and> (Atoi (Get params ''limit'') = None \<longrightarrow> dsLimit q = None)
    \<and> (Atoi (Get params ''offset'') = None \<longrightarrow> dsOffset q = None)"
proof -
  let ?q0 = "selectColumns db table params (From table)"
  have "C key \<notin> set (map condColumn (dsWhere ?q0))"
    by (simp add: selectColumns_keeps From_def)
  from whereLoop_props [OF assms(1) assms(2) this, of params]
  obtain q1 where q1: "whereLoop params params ?q0 = Inr q1"
    "dsFrom q1 = dsFrom ?q0" "dsLimit q1 = dsLimit ?q0" "dsOffset q1 = dsOffset ?q0"
    "C key \<notin> set (map condColumn (dsWhere q1))" by blast
  define q2 where "q2 = orderBy params
      (foldl (\<lambda>q join. applyJoin q join table) q1 (parseJoins params table))"
  have q2: "dsWhere q2 = dsWhere q1" "dsLimit q2 = None" "dsOffset q2 = None" "dsFrom q2 = table"
    using q1 by (simp_all add: q2_def orderBy_keeps joins_keep selectColumns_keeps From_def)
  have b: "BuildQuery db table params = Inr (offsetClause params (limitClause params q2))"
    by (simp add: BuildQuery_def q1 q2_def)
  have "Atoi (Get params ''limit'') = None \<longrightarrow>
      dsLimit (offsetClause params (limitClause params q2)) = None"
    by (simp add: offsetClause_keeps limitClause_None q2)
  moreover have "Atoi (Get params ''offset'') = None \<longrightarrow>
      dsOffset (offsetClause params (limitClause params q2)) = None"
    by (simp add: offsetClause_None limitClause_keeps q2)
  ultimately show ?thesis
    using q1(5) by (simp add: b offsetClause_keeps limitClause_keeps q2)
qed

lemma whereLoop_Inr:
  assumes "[] \<notin> set (map snd rest)"
  shows "\<exists>q'. whereLoop params rest q = Inr q'
    \<and> dsFrom q' = dsFrom q \<and> dsLimit q' = dsLimit q \<and> dsOffset q' = dsOffset q"
  using assms
proof (induction rest arbitrary: q)
  case Nil
  then show ?case by simp
next
  case (Cons kv rest)
  obtain k val where kv: "kv = (k, val)" by (cases kv) auto
  from Cons.prems have val: "val \<noteq> []" and rest: "[] \<notin> set (map snd rest)"
    by (auto simp add: kv)
  from whereStep_result [OF val, of params k q]
  obtain q1 where st: "whereStep params (k, val) q = Inr q1"
    and keep: "dsFrom q1 = dsFrom q" "dsLimit q1 = dsLimit q" "dsOffset q1 = dsOffset q"
    by (auto simp add: applyOperator_keeps)
  from Cons.IH [OF rest, of q1] st keep show ?case by (simp add: kv)
qed

lemma BuildQuery_pagination:
  assumes "[] \<notin> set (map snd params)"
  shows "\<exists>q. BuildQuery db table params = Inr q \<and> dsFrom q = table
    \<and> (Atoi (Get params ''limit'') = None \<longrightarrow> dsLimit q = None)
    \<and> (Atoi (Get params ''offset'') = None \<longrightarrow> dsOffset q = None)"
proof -
  let ?q0 = "selectColumns db table params (From table)"
  from whereLoop_Inr [OF assms, of params ?q0]
  obtain q1 where q1: "whereLoop params params ?q0 = Inr q1"
    "dsFrom q1 = dsFrom ?q0" "dsLimit q1 = dsLimit ?q0" "dsOffset q1 = dsOffset ?q0" by blast
  define q2 where "q2 = orderBy params
      (foldl (\<lambda>q join. applyJoin q join table) q1 (parseJoins params table))"
  have q2: "dsLimit q2 = None" "dsOffset q2 = None" "dsFrom q2 = table"
    using q1 by (simp_all add: q2_def orderBy_keeps joins_keep selectColumns_keeps From_def)
  have b: "BuildQuery db table params = Inr (offsetClause params (limitClause params q2))"
    by (simp add: BuildQuery_def q1 q2_def)
  have "Atoi (Get params ''limit'') = None \<longrightarrow>
      dsLimit (offsetClause params (limitClause params q2)) = None"
    by (simp add: offsetClause_keeps limitClause_None q2)
  moreover have "Atoi (Get params ''offset'') = None \<longrightarrow>
      dsOffset (offsetClause params (limitClause params q2)) = None"
    by (simp add: offsetClause_None limitClause_keeps q2)
  ultimately show ?thesis
    by (simp add: b offsetClause_keeps limitClause_keeps q2)
qed

lemma SplitN2_first:
  assumes "sep \<notin> set op"
  shows "SplitN2 (op @ sep # v) sep = [op, v]"
proof -
  from assms have a: "\<forall>x\<in>set op. x \<noteq> sep" by auto
  then have "takeWhile (\<lambda>c. c \<noteq> sep) (op @ sep # v) = op"
    by (simp add: takeWhile_tail)
  moreover from a have "dropWhile (\<lambda>c. c \<noteq> sep) (op @ sep # v) = sep # v"
    by (simp add: dropWhile_append3)
  ultimately show ?thesis by (simp add: SplitN2_def)
qed

section \<open>Pagination\<close>

text \<open>
  C7, as stated, fails: the request \<^verbatim>\<open>offset=abc\<close> is compiled, without an OFFSET
  clause and without an error.
\<close>

theorem invalid_pagination_counterexample:
  "BuildQuery blogCatalog ''authors'' [(''offset'', [''abc''])]
  = Inr \<lparr>dsFrom = ''authors'', dsSelect = [S ''*''],
         dsWhere = [], dsJoins = [], dsOrder = [], dsLimit = None, dsOffset = None\<rparr>"
  by (simp add: string_eval query_eval Atoi_def isDigit_def)

text \<open>
  C7, as amended. Every request whose parameters all carry a value is compiled; when
  \<^verbatim>\<open>strconv.Atoi\<close> does not accept the value of \<open>limit\<close> the query has no LIMIT
  clause, and when it does not accept the value of \<open>offset\<close> the query has no OFFSET
  clause. The value is ignored and no error is raised.
\<close>

theorem invalid_pagination_ignored:
  assumes "[] \<notin> set (map snd params)"
  shows "\<exists>q. BuildQuery db table params = Inr q
    \<and> (Atoi (Get params ''limit'') = None \<longrightarrow> dsLimit q = None)
    \<and> (Atoi (Get params ''offset'') = None \<longrightarrow> dsOffset q = None)"
proof -
  from BuildQuery_pagination [OF assms, of db table]
  obtain q where q: "BuildQuery db table params = Inr q \<and> dsFrom q = table
    \<and> (Atoi (Get params ''limit'') = None \<longrightarrow> dsLimit q = None)
    \<and> (Atoi (Get params ''offset'') = None \<longrightarrow> dsOffset q = None)" ..
  then show ?thesis by (intro exI [of _ q]) simp
qed

theorem invalid_pagination_ignored_witness:
  "\<exists>q. BuildQuery blogCatalog ''authors'' [(''limit'', [''ten'']), (''offset'', [''abc''])] = Inr q
     \<and> dsLimit q = None \<and> dsOffset q = None"
proof -
  have "Atoi (Get [(''limit'', [''ten'']), (''offset'', [''abc''])] ''limit'') = None"
    "Atoi (Get [(''limit'', [''ten'']), (''offset'', [''abc''])] ''offset'') = None"
    by (simp_all add: Get_def Atoi_def isDigit_def byte_def)
  with invalid_pagination_ignored
    [of "[(''limit'', [''ten'']), (''offset'', [''abc''])]" blogCatalog "''authors''"]
  show ?thesis by simp
qed

text \<open>
  A negative value that \<^verbatim>\<open>strconv.Atoi\<close> accepts is handed to \<^verbatim>\<open>uint\<close>: the limit
  \<open>-1\<close> becomes \<open>2^64 - 1\<close>.
\<close>

lemma negative_limit_wraps:
  "BuildQuery blogCatalog ''authors'' [(''limit'', [''-1''])]
  = Inr \<lparr>dsFrom = ''authors'', dsSelect = [S ''*''],
         dsWhere = [], dsJoins = [], dsOrder = [], dsLimit = Some 18446744073709551615, dsOffset = None\<rparr>"
  by (simp add: string_eval query_eval Atoi_def isDigit_def digitsValue_def uint_def)

section \<open>Filter operators\<close>

text \<open>
  C8, as stated, fails: the request \<^verbatim>\<open>age=neq.5\<close> is compiled without an error and
  without a predicate on \<open>age\<close>; \<^verbatim>\<open>parseJoins\<close> then reads the parameter as the join
  \<open>age = neq.5\<close> of a table \<open>age\<close>.
\<close>

theorem unsupported_operator_counterexample:
  "BuildQuery blogCatalog ''authors'' [(''age'', [''neq.5''])]
  = Inr \<lparr>dsFrom = ''authors'', dsSelect = [S ''*'', All ''age''],
         dsWhere = [],
         dsJoins = [LeftJoin ''age'' (Eq (Col ''authors'' ''neq'') (Ex (Col ''age'' ''5'')))],
         dsOrder = [], dsLimit = None, dsOffset = None\<rparr>"
  by (simp add: string_eval query_eval)

text \<open>
  C8, as amended. Let every parameter carry a value and let the names be distinct, as
  in a map. For a parameter whose first value is \<open>op.v\<close>, with no dot in \<open>op\<close> and \<open>op\<close>
  outside \<open>eq, gt, lt, gte, lte, like, in\<close>, the request is compiled and the WHERE
  clause has no condition on the column of that name.
\<close>

theorem unsupported_operator_dropped:
  assumes "[] \<notin> set (map snd params)"
    and "distinct (map fst params)"
    and "(key, (op @ ''.'' @ v) # vs) \<in> set params"
    and "CHR ''.'' \<notin> set op"
    and "\<not> filterOperators op"
  shows "\<exists>q. BuildQuery db table params = Inr q
    \<and> C key \<notin> set (map condColumn (dsWhere q))"
proof -
  have "\<forall>val op' v'. (key, val) \<in> set params \<longrightarrow>
      SplitN2 (hd val) CHR ''.'' = [op', v'] \<longrightarrow> \<not> filterOperators op'"
  proof (intro allI impI)
    fix val op' v'
    assume "(key, val) \<in> set params" and sp: "SplitN2 (hd val) CHR ''.'' = [op', v']"
    with assms(2) assms(3) have "val = (op @ ''.'' @ v) # vs"
      by (blast dest: eq_key_imp_eq_value)
    then have "SplitN2 (hd val) CHR ''.'' = [op, v]"
      using SplitN2_first [OF assms(4), of v] by simp
    with sp have "op' = op" by simp
    with assms(5) show "\<not> filterOperators op'" by simp
  qed
  from BuildQuery_props [OF assms(1) this, of db table] show ?thesis by blast
qed

theorem unsupported_operator_dropped_witness:
  "\<exists>q. BuildQuery blogCatalog ''authors'' [(''age'', [''neq.5'']), (''name'', [''eq.bob''])] = Inr q
     \<and> C ''age'' \<notin> set (map condColumn (dsWhere q))"
  using unsupported_operator_dropped
    [of "[(''age'', [''neq.5'']), (''name'', [''eq.bob''])]" "''age''" "''neq''" "''5''" "[]"
        blogCatalog "''authors''"]
  by (simp add: filterOperators_def)

section \<open>Failure of the catalog lookup\<close>

text \<open>
  C9, as stated, fails: on a connection where every catalog query fails, the field
  \<open>authors(id,name)\<close> on \<open>books\<close> is compiled to the array subquery of a one-to-many
  relationship, and no error reaches the caller.
\<close>

theorem lookup_failure_counterexample:
  "BuildQuery failingCatalog ''books'' [(''select'', [''authors(id,name)''])]
  = Inr \<lparr>dsFrom = ''books'',
         dsSelect = [L (''(SELECT COALESCE(json_agg(row_to_json(arr)), ''
           @ [CHR 0x27, CHR ''['', CHR '']'', CHR 0x27]
           @ ''::json) FROM (SELECT id,name FROM authors WHERE authors.book_id = books.id) arr) AS authors'')],
         dsWhere = [], dsJoins = [], dsOrder = [], dsLimit = None, dsOffset = None\<rparr>"
  by (simp add: string_eval query_eval failingCatalog_def oneToManySQL_def)

text \<open>
  C9, as amended. For every select field that the embed pattern matches, with the groups
  \<open>rel\<close> and \<open>colsStr\<close>: when the catalog query for \<open>{singular of rel}_id\<close> on the root
  table fails, \<^const>\<open>columnExists\<close> answers false and the field is compiled to the literal
  array subquery of a one-to-many relationship,
  \<^verbatim>\<open>(SELECT COALESCE(json_agg(row_to_json(arr)), '[]'::json) FROM (SELECT cols FROM rel WHERE rel.{singular of table}_id = table.id) arr) AS rel\<close>,
  where \<open>cols\<close> are the child columns, each without the white space around it, joined
  by commas, or \<open>*\<close> when there are none. The failure is absorbed.
\<close>

theorem lookup_failure_absorbed:
  assumes "matchEmbed (TrimSpace f) = [m0, rel, colsStr]"
    and "db table (singularize rel @ ''_id'') = None"
  shows "\<not> columnExists db table (singularize rel @ ''_id'')
    \<and> selectField db table f =
        L (''(SELECT COALESCE(json_agg(row_to_json(arr)), ''
           @ [CHR 0x27, CHR ''['', CHR '']'', CHR 0x27]
           @ ''::json) FROM (SELECT ''
           @ (if colsStr = [] then ''*''
              else Join (map TrimSpace (Split colsStr CHR '','')) '','')
           @ '' FROM '' @ rel @ '' WHERE '' @ rel @ ''.''
           @ singularize table @ ''_id'' @ '' = '' @ table @ ''.id) arr) AS '' @ rel)"
proof -
  have "\<not> columnExists db table (singularize rel @ ''_id'')"
    using assms(2) by (simp add: columnExists_def)
  moreover have "selectField db table f =
        L (''(SELECT COALESCE(json_agg(row_to_json(arr)), ''
           @ [CHR 0x27, CHR ''['', CHR '']'', CHR 0x27]
           @ ''::json) FROM (SELECT ''
           @ (if colsStr = [] then ''*''
              else Join (map TrimSpace (Split colsStr CHR '','')) '','')
           @ '' FROM '' @ rel @ '' WHERE '' @ rel @ ''.''
           @ singularize table @ ''_id'' @ '' = '' @ table @ ''.id) arr) AS '' @ rel)"
    unfolding selectField_match [OF assms(1)] embedSubquery_text embedCols_Nil
    using assms(2) by (simp add: embedCols_def)
  ultimately show ?thesis by (intro conjI)
qed

theorem lookup_failure_absorbed_witness:
  "\<not> columnExists failingCatalog ''books'' ''author_id''
   \<and> selectField failingCatalog ''books'' ''authors(id,name)'' =
       L (''(SELECT COALESCE(json_agg(row_to_json(arr)), ''
           @ [CHR 0x27, CHR ''['', CHR '']'', CHR 0x27]
           @ ''::json) FROM (SELECT id,name FROM authors WHERE authors.book_id = books.id) arr) AS authors'')"
proof -
  have m: "matchEmbed (TrimSpace ''authors(id,name)'')
      = [''authors(id,name)'', ''authors'', ''id,name'']"
    by (simp add: string_eval)
  have f: "failingCatalog ''books'' (singularize ''authors'' @ ''_id'') = None"
    by (simp add: failingCatalog_def)
  have sg: "singularize ''authors'' = ''author''" "singularize ''books'' = ''book''"
    by (simp_all add: string_eval)
  have t: "map TrimSpace (Split ''id,name'' CHR '','') = [''id'', ''name'']"
    by (simp add: string_eval)
  from lookup_failure_absorbed [of "''authors(id,name)''" "''authors(id,name)''" "''authors''"
      "''id,name''" failingCatalog "''books''", OF m f]
  show ?thesis by (simp add: sg t)
qed

section \<open>Identifiers in the SQL text\<close>

text \<open>
  C6, as stated, fails: a table name and a child column with a semicolon are written
  into the literal subquery as they are, and so is such a tenant name into the statement
  that sets the search path. Nothing is rejected.
\<close>

theorem identifiers_counterexample:
  "BuildQuery blogCatalog ''a;b'' [(''select'', [''posts(c;d)''])]
  = Inr \<lparr>dsFrom = ''a;b'',
         dsSelect = [L (''(SELECT COALESCE(json_agg(row_to_json(arr)), ''
           @ [CHR 0x27, CHR ''['', CHR '']'', CHR 0x27]
           @ ''::json) FROM (SELECT c;d FROM posts WHERE posts.a;b_id = a;b.id) arr) AS posts'')],
         dsWhere = [], dsJoins = [], dsOrder = [], dsLimit = None, dsOffset = None\<rparr>
  \<and> searchPathStatement True ''a;b''
      = Inr (''SET LOCAL search_path TO '' @ [CHR 0x22] @ ''a;b'' @ [CHR 0x22])"
  by (simp add: string_eval query_eval blogCatalog_def searchPathStatement_def oneToManySQL_def)

text \<open>
  C6, as amended. No identifier is checked and none is rejected. For every root table
  name, whatever its text, and every select field that the embed pattern matches, with
  the groups \<open>rel\<close> and \<open>colsStr\<close>, the field is compiled to the literal subquery below:
  the table name stands in it as given and, in the one-to-many case, so do the child
  columns, but for the white space around each. A select field that the pattern does
  not match is handed to \<^verbatim>\<open>goqu.C\<close> as it is, but for the white space around it. Every
  tenant name that is not empty is written as given between the double quotes of the
  \<^verbatim>\<open>SET LOCAL search_path\<close> statement that \<^verbatim>\<open>HandleSelect\<close> sends once the transaction
  has begun.
\<close>

theorem identifiers_not_validated:
  assumes "matchEmbed (TrimSpace f) = [m0, rel, colsStr]"
    and "matchEmbed (TrimSpace g) = []"
    and "tenants \<noteq> []"
  shows "selectField db table f =
       L (if db table (singularize rel @ ''_id'') = Some True
          then ''(SELECT row_to_json('' @ rel @ ''.*) FROM '' @ rel @ '' WHERE ''
                 @ rel @ ''.id = '' @ table @ ''.'' @ singularize rel @ ''_id''
                 @ '' LIMIT 1) AS '' @ rel
          else ''(SELECT COALESCE(json_agg(row_to_json(arr)), ''
                 @ [CHR 0x27, CHR ''['', CHR '']'', CHR 0x27]
                 @ ''::json) FROM (SELECT ''
                 @ (if colsStr = [] then ''*''
                    else Join (map TrimSpace (Split colsStr CHR '','')) '','')
                 @ '' FROM '' @ rel @ '' WHERE '' @ rel @ ''.''
                 @ singularize table @ ''_id'' @ '' = '' @ table @ ''.id) arr) AS '' @ rel)
    \<and> selectField db table g = C (TrimSpace g)
    \<and> searchPathStatement True tenants =
        Inr (''SET LOCAL search_path TO '' @ [CHR 0x22] @ tenants @ [CHR 0x22])"
proof -
  have "selectField db table f =
       L (if db table (singularize rel @ ''_id'') = Some True
          then ''(SELECT row_to_json('' @ rel @ ''.*) FROM '' @ rel @ '' WHERE ''
                 @ rel @ ''.id = '' @ table @ ''.'' @ singularize rel @ ''_id''
                 @ '' LIMIT 1) AS '' @ rel
          else ''(SELECT COALESCE(json_agg(row_to_json(arr)), ''
                 @ [CHR 0x27, CHR ''['', CHR '']'', CHR 0x27]
                 @ ''::json) FROM (SELECT ''
                 @ (if colsStr = [] then ''*''
                    else Join (map TrimSpace (Split colsStr CHR '','')) '','')
                 @ '' FROM '' @ rel @ '' WHERE '' @ rel @ ''.''
                 @ singularize table @ ''_id'' @ '' = '' @ table @ ''.id) arr) AS '' @ rel)"
    unfolding selectField_match [OF assms(1)] embedSubquery_text embedCols_Nil
    by (simp add: embedCols_def)
  moreover have "selectField db table g = C (TrimSpace g)"
    by (rule selectField_no_match [OF assms(2)])
  moreover have "searchPathStatement True tenants =
        Inr (''SET LOCAL search_path TO '' @ [CHR 0x22] @ tenants @ [CHR 0x22])"
    using assms(3) by (simp add: searchPathStatement_def)
  ultimately show ?thesis by (intro conjI)
qed

theorem identifiers_not_validated_witness:
  "selectField blogCatalog ''my table'' ''posts(id; x, y z)'' =
       L (''(SELECT COALESCE(json_agg(row_to_json(arr)), ''
           @ [CHR 0x27, CHR ''['', CHR '']'', CHR 0x27]
           @ ''::json) FROM (SELECT id; x,y z FROM posts WHERE posts.my table_id = my table.id) arr) AS posts'')
    \<and> selectField blogCatalog ''my table'' '' first name; '' = C ''first name;''
    \<and> searchPathStatement True ''a b'' =
        Inr (''SET LOCAL search_path TO '' @ [CHR 0x22] @ ''a b'' @ [CHR 0x22])"
proof -
  have m: "matchEmbed (TrimSpace ''posts(id; x, y z)'')
      = [''posts(id; x, y z)'', ''posts'', ''id; x, y z'']"
    by (simp add: string_eval)
  have tg: "TrimSpace '' first name; '' = ''first name;''"
    by (simp add: string_eval)
  have n: "matchEmbed (TrimSpace '' first name; '') = []"
    unfolding tg by (simp add: string_eval)
  have c: "blogCatalog ''my table'' (singularize ''posts'' @ ''_id'') \<noteq> Some True"
    by (simp add: blogCatalog_def)
  have t: "map TrimSpace (Split ''id; x, y z'' CHR '','') = [''id; x'', ''y z'']"
    by (simp add: string_eval)
  have s: "singularize ''my table'' = ''my table''" by (simp add: string_eval)
  have ne: "''a b'' \<noteq> []" by simp
  note r = identifiers_not_validated [OF m n ne, of blogCatalog "''my table''"]
  have "selectField blogCatalog ''my table'' ''posts(id; x, y z)'' =
       L (''(SELECT COALESCE(json_agg(row_to_json(arr)), ''
           @ [CHR 0x27, CHR ''['', CHR '']'', CHR 0x27]
           @ ''::json) FROM (SELECT id; x,y z FROM posts WHERE posts.my table_id = my table.id) arr) AS posts'')"
    using r [THEN conjunct1] c by (simp add: t s)
  moreover have "selectField blogCatalog ''my table'' '' first name; '' = C ''first name;''"
    using r [THEN conjunct2, THEN conjunct1] by (simp only: tg)
  moreover note r [THEN conjunct2, THEN conjunct2]
  ultimately show ?thesis by (intro conjI)
qed

end
